theory Spec2Isabelle
  imports Main "HOL-Library.AList" "HOL-Library.Sublist"
begin

section \<open>JavaScript values, objects and the object store\<close>

text \<open>
  The program is \<^verbatim>\<open>src/index.js\<close> of bash-match. Its arguments are JavaScript values.
  A value is a primitive or a reference to an object of the store; numbers are kept as
  integers (the program only tests their type and their truthiness).
\<close>

datatype jsval = JUndefined | JNull | JBool bool | JNum int | JStr string | JRef nat

text \<open>
  An object is the list of its own enumerable data properties in insertion order, which is
  the order \<^verbatim>\<open>for (key in o)\<close> visits the keys that are not array indices. Assigning
  to a key that exists keeps its place, a new key goes last: \<open>AList.update\<close>. The
  prototype of every object is \<^verbatim>\<open>Object.prototype\<close>; accessors and a key named
  \<^verbatim>\<open>__proto__\<close> are outside this model. The store is the list of all objects,
  an address is an index into it, and a new object gets the address \<open>length h\<close>.
\<close>

type_synonym obj = "(string \<times> jsval) list"

type_synonym heap = "obj list"

fun truthy :: "jsval \<Rightarrow> bool" where
  "truthy JUndefined = False"
| "truthy JNull = False"
| "truthy (JBool b) = b"
| "truthy (JNum n) = (n \<noteq> 0)"
| "truthy (JStr s) = (s \<noteq> [])"
| "truthy (JRef a) = True"

definition props :: "heap \<Rightarrow> nat \<Rightarrow> obj" where
  "props h a = (if a < length h then h ! a else [])"

text \<open>The own properties of a value; a primitive has none that the program looks at.\<close>

fun ownProps :: "heap \<Rightarrow> jsval \<Rightarrow> obj" where
  "ownProps h (JRef a) = props h a"
| "ownProps h v = []"

text \<open>\<^verbatim>\<open>o[key]\<close> for a truthy \<open>o\<close>: a missing property reads as \<^verbatim>\<open>undefined\<close>.\<close>

definition getProp :: "heap \<Rightarrow> jsval \<Rightarrow> string \<Rightarrow> jsval" where
  "getProp h v key = (case map_of (ownProps h v) key of Some x \<Rightarrow> x | None \<Rightarrow> JUndefined)"

text \<open>\<^verbatim>\<open>Object.prototype.hasOwnProperty.call(o, key)\<close>.\<close>

definition hasOwn :: "obj \<Rightarrow> string \<Rightarrow> bool" where
  "hasOwn ob key = (key \<in> set (map fst ob))"

text \<open>\<^verbatim>\<open>o[key] = v\<close> on the object at address \<open>a\<close>.\<close>

definition setProp :: "heap \<Rightarrow> nat \<Rightarrow> string \<Rightarrow> jsval \<Rightarrow> heap" where
  "setProp h a key v = h[a := AList.update key v (props h a)]"

definition alloc :: "heap \<Rightarrow> obj \<Rightarrow> nat \<times> heap" where
  "alloc h ob = (length h, h @ [ob])"

text \<open>What a \<^verbatim>\<open>throw\<close> carries: the two built-in errors the program raises itself, the
  trimmed text of the error stream (a string is thrown as it is), and whatever the process
  spawner raises.\<close>

datatype thrown = TypeError string | Error string | ThrownString string | SpawnError string

section \<open>The platform\<close>

text \<open>
  \<^verbatim>\<open>res.stdout\<close> and \<^verbatim>\<open>res.stderr\<close>: \<open>None\<close> is \<^verbatim>\<open>null\<close> (the stream was not
  captured), \<open>Some s\<close> a Buffer or a string whose \<^verbatim>\<open>toString()\<close> is \<open>s\<close>.
\<close>

type_synonym buffer = "string option"

record spawn_result =
  stdout :: buffer
  stderr :: buffer

text \<open>
  The collaborators the module requires: \<^verbatim>\<open>is-windows\<close>, \<^verbatim>\<open>fs-exists-sync\<close>,
  \<^verbatim>\<open>process.cwd()\<close> and \<^verbatim>\<open>cross-spawn\<close>'s \<^verbatim>\<open>spawn.sync\<close>, which gets the path of the
  shell, the argument list and the properties of the options object.
\<close>

record env =
  isWindows :: bool
  exists :: "string \<Rightarrow> bool"
  process_cwd :: string
  spawn_sync :: "string \<Rightarrow> string list \<Rightarrow> obj \<Rightarrow> thrown + spawn_result"

text \<open>
  What the module changes: the store, its variable \<^verbatim>\<open>bashPath\<close> (\<open>None\<close> while it is
  \<^verbatim>\<open>undefined\<close>), and the shell invocations made so far.
\<close>

record world =
  heap :: heap
  bashPath :: "string option"
  spawned :: "(string \<times> string list \<times> obj) list"

section \<open>Strings\<close>

text \<open>\<^verbatim>\<open>String.prototype.trim\<close>: the white space and line terminators among the
  characters a \<open>char\<close> can hold.\<close>

definition isWhiteSpace :: "char \<Rightarrow> bool" where
  "isWhiteSpace c = (of_char c \<in> {9, 10, 11, 12, 13, 32, 160 :: nat})"

definition trim :: "string \<Rightarrow> string" where
  "trim s = rev (dropWhile isWhiteSpace (rev (dropWhile isWhiteSpace s)))"

text \<open>\<^verbatim>\<open>s.indexOf(sub)\<close>: the first position where \<open>sub\<close> starts, or \<open>-1\<close>.\<close>

fun indexOfFrom :: "string \<Rightarrow> string \<Rightarrow> int \<Rightarrow> int" where
  "indexOfFrom [] sub i = (if sub = [] then i else - 1)"
| "indexOfFrom (c # cs) sub i = (if prefix sub (c # cs) then i else indexOfFrom cs sub (i + 1))"

definition indexOf :: "string \<Rightarrow> string \<Rightarrow> int" where
  "indexOf s sub = indexOfFrom s sub 0"

text \<open>
  Modelled from the spec: the package \<^verbatim>\<open>is-extglob\<close> is not under src/. The spec's
  extglob-qualifying prefix is one of \<^verbatim>\<open>? * + @ !\<close> immediately followed by \<^verbatim>\<open>(\<close>.
\<close>

fun isExtglob :: "string \<Rightarrow> bool" where
  "isExtglob (c # d # cs) = ((c \<in> set ''?*+@!'' \<and> d = CHR ''('') \<or> isExtglob (d # cs))"
| "isExtglob cs = False"

section \<open>The functions of src/index.js\<close>

text \<open>\<^verbatim>\<open>(buf && buf.toString() || '').trim()\<close>\<close>

definition toString :: "buffer \<Rightarrow> string" where
  "toString buf = trim (case buf of None \<Rightarrow> [] | Some s \<Rightarrow> (if s \<noteq> [] then s else []))"

text \<open>\<^verbatim>\<open>handleError\<close>: \<open>Inl\<close> is the \<^verbatim>\<open>throw\<close>.\<close>

definition handleError :: "heap \<Rightarrow> thrown \<Rightarrow> jsval \<Rightarrow> thrown + bool" where
  "handleError h err options =
     (if truthy options \<and> getProp h options ''strictErrors'' = JBool True then Inl err
      else Inr False)"

text \<open>
  Modelled from the spec: the package \<^verbatim>\<open>extend-shallow\<close> is not under src/. It merges
  the own enumerable properties of its second argument, when that is an object, over its
  first, in their order, and returns the first.
\<close>

fun assign :: "heap \<Rightarrow> nat \<Rightarrow> obj \<Rightarrow> heap" where
  "assign h a [] = h"
| "assign h a ((key, v) # rest) = assign (setProp h a key v) a rest"

definition extend :: "heap \<Rightarrow> nat \<Rightarrow> jsval \<Rightarrow> heap" where
  "extend h a ob = (case ob of JRef b \<Rightarrow> assign h a (props h b) | _ \<Rightarrow> h)"

text \<open>
  \<^verbatim>\<open>createOptions\<close>. \<^verbatim>\<open>opts.hasOwnProperty('globstar')\<close> looks \<^verbatim>\<open>hasOwnProperty\<close> up on
  \<open>opts\<close> itself first: when the caller's record has a key of that name, its value is
  not a function (the values of this model never are) and the call raises a TypeError.
\<close>

definition createOptions :: "env \<Rightarrow> heap \<Rightarrow> string \<Rightarrow> jsval \<Rightarrow> (thrown + jsval) \<times> heap" where
  "createOptions e h pattern options =
     (if truthy options \<and> getProp h options ''normalized'' = JBool True then (Inr options, h)
      else
        let (a, h0) = alloc h [(''cwd'', JStr (process_cwd e))];
            opts = JRef a;
            h1 = extend h0 a options;
            h2 = (if getProp h1 opts ''nocase'' = JBool True
                  then setProp h1 a ''nocaseglob'' (JBool True) else h1);
            h3 = (if getProp h2 opts ''nonull'' = JBool True
                  then setProp h2 a ''nullglob'' (JBool True) else h2);
            h4 = (if getProp h3 opts ''dot'' = JBool True
                  then setProp h3 a ''dotglob'' (JBool True) else h3)
        in
          if hasOwn (props h4 a) ''hasOwnProperty''
          then (Inl (TypeError ''opts.hasOwnProperty is not a function''), h4)
          else
            let h5 = (if \<not> hasOwn (props h4 a) ''globstar'' \<and> indexOf pattern ''**'' \<noteq> - 1
                      then setProp h4 a ''globstar'' (JBool True) else h4);
                h6 = (if \<not> hasOwn (props h5 a) ''extglob'' \<and> isExtglob pattern
                      then setProp h5 a ''extglob'' (JBool True) else h5);
                h7 = setProp h6 a ''normalized'' (JBool True)
            in (Inr opts, h7))"

definition valid :: "string list" where
  "valid = [''dotglob'', ''extglob'', ''failglob'', ''globstar'', ''nocaseglob'', ''nullglob'']"

text \<open>The script of \<^verbatim>\<open>cmd\<close>; the \<^verbatim>\<open>\n\<close> of the source's string literal is a line feed.\<close>

definition script :: "string \<Rightarrow> string \<Rightarrow> string" where
  "script str pattern =
     ''IFS=$'' @ [CHR 0x22, CHR 0x0A, CHR 0x22] @ ''; if [[ '' @ [CHR 0x22] @ str @ [CHR 0x22]
       @ '' = '' @ pattern @ '' ]]; then echo true; fi''"

text \<open>The loop of \<^verbatim>\<open>cmd\<close> over the keys still to visit, with \<open>args\<close> as built so far.\<close>

fun cmd_loop :: "string list \<Rightarrow> string list \<Rightarrow> string list" where
  "cmd_loop [] args = args"
| "cmd_loop (key # keys) args =
     cmd_loop keys (if key \<in> set valid then args @ [''-O'', key] else args)"

text \<open>
  \<^verbatim>\<open>cmd\<close>. \<^verbatim>\<open>options.hasOwnProperty(key)\<close> is true of every own key the loop visits,
  and raises a TypeError on the first key when the record has a key \<^verbatim>\<open>hasOwnProperty\<close>.
\<close>

definition cmd :: "heap \<Rightarrow> string \<Rightarrow> string \<Rightarrow> jsval \<Rightarrow> thrown + string list" where
  "cmd h str pattern options =
     (if hasOwn (ownProps h options) ''hasOwnProperty''
      then Inl (TypeError ''options.hasOwnProperty is not a function'')
      else Inr (cmd_loop (map fst (ownProps h options)) [] @ [''-c'', script str pattern]))"

definition probeBashPath :: "env \<Rightarrow> string" where
  "probeBashPath e =
     (if exists e ''/usr/local/bin/bash'' then ''/usr/local/bin/bash''
      else if exists e ''/bin/bash'' then ''/bin/bash''
      else ''bash'')"

definition getBashPath :: "env \<Rightarrow> world \<Rightarrow> string \<times> world" where
  "getBashPath e w =
     (case bashPath w of
        Some p \<Rightarrow> if p \<noteq> [] then (p, w)
                  else (probeBashPath e, w\<lparr>bashPath := Some (probeBashPath e)\<rparr>)
      | None \<Rightarrow> (probeBashPath e, w\<lparr>bashPath := Some (probeBashPath e)\<rparr>))"

text \<open>
  The \<^verbatim>\<open>try\<close> block of \<^verbatim>\<open>bash\<close>: its outcome, the variable \<open>opts\<close> as the \<^verbatim>\<open>catch\<close>
  block finds it (\<^verbatim>\<open>undefined\<close> when \<^verbatim>\<open>createOptions\<close> raised), and the world. The
  arguments of \<^verbatim>\<open>spawn.sync\<close> are evaluated left to right.
\<close>

definition bash_try ::
  "env \<Rightarrow> world \<Rightarrow> string \<Rightarrow> string \<Rightarrow> jsval \<Rightarrow> ((thrown + bool) \<times> jsval) \<times> world" where
  "bash_try e w str pattern options =
     (case createOptions e (heap w) pattern options of
        (Inl err, h1) \<Rightarrow> ((Inl err, JUndefined), w\<lparr>heap := h1\<rparr>)
      | (Inr opts, h1) \<Rightarrow>
          (case getBashPath e (w\<lparr>heap := h1\<rparr>) of
             (path, w1) \<Rightarrow>
               (case cmd h1 str pattern opts of
                  Inl err \<Rightarrow> ((Inl err, opts), w1)
                | Inr args \<Rightarrow>
                    let w2 = w1\<lparr>spawned := spawned w1 @ [(path, args, ownProps h1 opts)]\<rparr> in
                    (case spawn_sync e path args (ownProps h1 opts) of
                       Inl err \<Rightarrow> ((Inl err, opts), w2)
                     | Inr res \<Rightarrow>
                         let err = toString (stderr res) in
                         if err \<noteq> [] then ((handleError h1 (ThrownString err) opts, opts), w2)
                         else ((Inr (toString (stdout res) \<noteq> []), opts), w2)))))"

definition bash :: "env \<Rightarrow> world \<Rightarrow> jsval \<Rightarrow> jsval \<Rightarrow> jsval \<Rightarrow> (thrown + bool) \<times> world" where
  "bash e w str pattern options =
     (case str of
        JStr s \<Rightarrow>
          (case pattern of
             JStr p \<Rightarrow>
               if isWindows e then (Inl (Error ''bash-match does not work on windows''), w)
               else
                 (case bash_try e w s p options of
                    ((Inl err, opts), w') \<Rightarrow> (handleError (heap w') err opts, w')
                  | ((Inr b, opts), w') \<Rightarrow> (Inr b, w'))
           | _ \<Rightarrow> (Inl (TypeError ''expected a string''), w))
      | _ \<Rightarrow> (Inl (TypeError ''expected a string''), w))"

definition isMatch :: "env \<Rightarrow> world \<Rightarrow> jsval \<Rightarrow> jsval \<Rightarrow> jsval \<Rightarrow> (thrown + bool) \<times> world" where
  "isMatch e w fixture pattern options = bash e w fixture pattern options"

text \<open>The first argument of \<^verbatim>\<open>bash.match\<close>: an array, or any other value.\<close>

datatype jsarg = JArray "jsval list" | JValue jsval

text \<open>The \<^verbatim>\<open>while\<close> loop of \<^verbatim>\<open>bash.match\<close> over the elements still to visit.\<close>

fun match_loop ::
  "env \<Rightarrow> world \<Rightarrow> jsval list \<Rightarrow> jsval \<Rightarrow> jsval \<Rightarrow> jsval list \<Rightarrow> (thrown + jsval list) \<times> world" where
  "match_loop e w [] pattern options matches = (Inr matches, w)"
| "match_loop e w (fixture # rest) pattern options matches =
     (case isMatch e w fixture pattern options of
        (Inl err, w') \<Rightarrow> (Inl err, w')
      | (Inr b, w') \<Rightarrow>
          match_loop e w' rest pattern options (if b then matches @ [fixture] else matches))"

definition bash_match ::
  "env \<Rightarrow> world \<Rightarrow> jsarg \<Rightarrow> jsval \<Rightarrow> jsval \<Rightarrow> (thrown + jsval list) \<times> world" where
  "bash_match e w list pattern options =
     (let xs = (case list of JArray ys \<Rightarrow> ys | JValue v \<Rightarrow> [v])
      in match_loop e w xs pattern options [])"

section \<open>The record that normalisation builds\<close>

text \<open>
  Every write of \<^verbatim>\<open>createOptions\<close> goes to the object it has just allocated, so the
  record it returns is a function of the caller's properties alone. The following
  functions compute that record on property lists; \<open>createOptions_fresh\<close> below proves
  that the store-level function builds exactly this.
\<close>

fun merge_props :: "obj \<Rightarrow> obj \<Rightarrow> obj" where
  "merge_props ob [] = ob"
| "merge_props ob ((key, v) # rest) = merge_props (AList.update key v ob) rest"

definition expandAlias :: "string \<Rightarrow> string \<Rightarrow> obj \<Rightarrow> obj" where
  "expandAlias k1 k2 ob =
     (if map_of ob k1 = Some (JBool True) then AList.update k2 (JBool True) ob else ob)"

definition aliased :: "env \<Rightarrow> obj \<Rightarrow> obj" where
  "aliased e src =
     expandAlias ''dot'' ''dotglob'' (expandAlias ''nonull'' ''nullglob''
       (expandAlias ''nocase'' ''nocaseglob'' (merge_props [(''cwd'', JStr (process_cwd e))] src)))"

definition implied :: "string \<Rightarrow> obj \<Rightarrow> obj" where
  "implied pattern ob =
     (let o5 = (if \<not> hasOwn ob ''globstar'' \<and> indexOf pattern ''**'' \<noteq> - 1
                then AList.update ''globstar'' (JBool True) ob else ob);
          o6 = (if \<not> hasOwn o5 ''extglob'' \<and> isExtglob pattern
                then AList.update ''extglob'' (JBool True) o5 else o5)
      in AList.update ''normalized'' (JBool True) o6)"

section \<open>The outcome of a match as a function of the normalised record\<close>

text \<open>
  \<^verbatim>\<open>typeof v === 'string'\<close>, and the values that are values of a store: a reference
  points at an object the store has.
\<close>

definition isString :: "jsval \<Rightarrow> bool" where
  "isString v = (case v of JStr s \<Rightarrow> True | _ \<Rightarrow> False)"

definition wf_val :: "heap \<Rightarrow> jsval \<Rightarrow> bool" where
  "wf_val h v = (case v of JRef a \<Rightarrow> a < length h | _ \<Rightarrow> True)"

text \<open>
  What \<^verbatim>\<open>bash\<close> returns or raises once \<^verbatim>\<open>createOptions\<close> has returned a record with
  the properties \<open>ob\<close>: \<open>strict\<close> is \<^verbatim>\<open>handleError\<close> on that record, \<open>outcome\<close> the
  rest of the \<^verbatim>\<open>try\<close> block and the \<^verbatim>\<open>catch\<close>. \<open>bash_Inr\<close> below proves that the
  store-level function computes exactly this.
\<close>

definition strict :: "obj \<Rightarrow> thrown \<Rightarrow> thrown + bool" where
  "strict ob err = (if map_of ob ''strictErrors'' = Some (JBool True) then Inl err else Inr False)"

definition outcome :: "env \<Rightarrow> string \<Rightarrow> string \<Rightarrow> string \<Rightarrow> obj \<Rightarrow> thrown + bool" where
  "outcome e path str pattern ob =
     (if hasOwn ob ''hasOwnProperty''
      then strict ob (TypeError ''options.hasOwnProperty is not a function'')
      else
        (case spawn_sync e path (cmd_loop (map fst ob) [] @ [''-c'', script str pattern]) ob of
           Inl err \<Rightarrow> strict ob err
         | Inr res \<Rightarrow>
             if toString (stderr res) \<noteq> [] then strict ob (ThrownString (toString (stderr res)))
             else Inr (toString (stdout res) \<noteq> [])))"

definition normalized_props :: "env \<Rightarrow> heap \<Rightarrow> string \<Rightarrow> jsval \<Rightarrow> obj option" where
  "normalized_props e h pattern options =
     (case createOptions e h pattern options of
        (Inl err, h1) \<Rightarrow> None
      | (Inr opts, h1) \<Rightarrow> Some (ownProps h1 opts))"

text \<open>A later state of the module: the store has grown and the shell path is the same.\<close>

definition extends :: "env \<Rightarrow> world \<Rightarrow> world \<Rightarrow> bool" where
  "extends e w w' =
     (prefix (heap w) (heap w') \<and> fst (getBashPath e w') = fst (getBashPath e w))"

text \<open>The names that an argument list sets with \<^verbatim>\<open>-O\<close>, read pair by pair, in their
  order.\<close>

fun toggle_names :: "string list \<Rightarrow> string list" where
  "toggle_names (flag # name # rest) =
     (if flag = ''-O'' then name # toggle_names rest else toggle_names rest)"
| "toggle_names rest = []"

section \<open>A sample platform for the concrete instances\<close>

text \<open>
  A POSIX platform with the shell at \<^verbatim>\<open>/bin/bash\<close>, and a shell that knows three
  scripts: one that matches, one with a syntax error, and anything else, which does not
  match.
\<close>

definition sample_shell :: "string \<Rightarrow> string list \<Rightarrow> obj \<Rightarrow> thrown + spawn_result" where
  "sample_shell path args ob =
     (if args = [] then Inl (SpawnError ''spawn ENOENT'')
      else if last args = script ''foo'' ''f*''
        then Inr \<lparr>stdout = Some (''true'' @ [CHR 0x0A]), stderr = Some []\<rparr>
      else if last args = script ''foo'' ''((''
        then Inr \<lparr>stdout = Some [], stderr = Some (''syntax error'' @ [CHR 0x0A])\<rparr>
      else Inr \<lparr>stdout = Some [], stderr = Some []\<rparr>)"

definition posix :: env where
  "posix = \<lparr>isWindows = False, exists = (\<lambda>path. path = ''/bin/bash''),
             process_cwd = ''/home/u'', spawn_sync = sample_shell\<rparr>"

section \<open>The store\<close>

lemma props_last [simp]: "props (h @ [ob]) (length h) = ob"
  by (simp add: props_def)

lemma props_old [simp]: "b < length h \<Longrightarrow> props (h @ ext) b = props h b"
  by (simp add: props_def nth_append)

lemma setProp_last [simp]: "setProp (h @ [ob]) (length h) key v = h @ [AList.update key v ob]"
  by (simp add: setProp_def)

lemma assign_last: "assign (h @ [ob]) (length h) kvs = h @ [merge_props ob kvs]"
  by (induction kvs arbitrary: ob) auto

lemma extend_last:
  "extend (h @ [ob]) (length h) v = h @ [merge_props ob (ownProps (h @ [ob]) v)]"
  by (cases v) (simp_all add: extend_def assign_last)

lemma getProp_JBool:
  "getProp h v key = JBool b \<longleftrightarrow> map_of (ownProps h v) key = Some (JBool b)"
  by (simp add: getProp_def split: option.splits)

lemma getProp_last:
  "getProp (h @ [ob]) (JRef (length h)) key = JBool b \<longleftrightarrow> map_of ob key = Some (JBool b)"
  by (simp add: getProp_JBool)

lemma getProp_truthy: "getProp h v key = JBool b \<Longrightarrow> truthy v"
  by (cases v) (simp_all add: getProp_def)

lemma hasOwn_map_of: "hasOwn ob key \<longleftrightarrow> map_of ob key \<noteq> None"
  by (simp add: hasOwn_def map_of_eq_None_iff)

text \<open>Allocating the base record changes no property a caller's value has, \<open>cwd\<close> apart
  (which only a dangling reference could see).\<close>

lemma ownProps_alloc_other:
  assumes "key \<noteq> k0"
  shows "map_of (ownProps (h @ [[(k0, x)]]) v) key = map_of (ownProps h v) key"
proof (cases v)
  case (JRef b)
  with assms show ?thesis
    by (simp add: props_def nth_append)
qed simp_all

lemma ownProps_alloc_distinct:
  assumes "distinct (map fst (ownProps h v))"
  shows "distinct (map fst (ownProps (h @ [[(k0, x)]]) v))"
proof (cases v)
  case (JRef b)
  with assms show ?thesis
    by (auto simp: props_def nth_append)
qed simp_all

lemma hasOwn_alloc_other:
  "key \<noteq> k0 \<Longrightarrow> hasOwn (ownProps (h @ [[(k0, x)]]) v) key = hasOwn (ownProps h v) key"
  by (simp add: hasOwn_map_of ownProps_alloc_other)

section \<open>Merging, alias expansion and implied toggles on property lists\<close>

lemma keys_merge_props:
  "set (map fst (merge_props ob src)) = set (map fst ob) \<union> set (map fst src)"
proof (induction src arbitrary: ob)
  case Nil
  then show ?case by simp
next
  case (Cons kv src)
  obtain k v where kv: "kv = (k, v)" by (cases kv)
  have "set (map fst (merge_props (AList.update k v ob) src)) =
          set (map fst (AList.update k v ob)) \<union> set (map fst src)"
    by (rule Cons.IH)
  then show ?case
    by (simp add: kv dom_update insert_commute)
qed

lemma map_of_merge_props_absent:
  "key \<notin> set (map fst src) \<Longrightarrow> map_of (merge_props ob src) key = map_of ob key"
proof (induction src arbitrary: ob)
  case Nil
  then show ?case by simp
next
  case (Cons kv src)
  obtain k v where kv: "kv = (k, v)" by (cases kv)
  with Cons.prems have "key \<noteq> k" and "key \<notin> set (map fst src)" by auto
  with Cons.IH [of "AList.update k v ob"] kv show ?case
    by (simp add: update_conv')
qed

lemma map_of_merge_props:
  "distinct (map fst src) \<Longrightarrow>
   map_of (merge_props ob src) key =
     (case map_of src key of Some v \<Rightarrow> Some v | None \<Rightarrow> map_of ob key)"
proof (induction src arbitrary: ob)
  case Nil
  then show ?case by simp
next
  case (Cons kv src)
  obtain k v where kv: "kv = (k, v)" by (cases kv)
  from Cons.prems kv have d: "distinct (map fst src)" and nk: "k \<notin> set (map fst src)"
    by auto
  from nk have "map_of src k = None" by (simp add: map_of_eq_None_iff)
  with Cons.IH [OF d] kv show ?case
    by (auto simp: update_conv' split: option.splits)
qed

lemma map_of_expandAlias:
  "map_of (expandAlias k1 k2 ob) key =
     (if map_of ob k1 = Some (JBool True) \<and> key = k2 then Some (JBool True) else map_of ob key)"
  by (simp add: expandAlias_def update_conv')

lemma map_of_aliased_other:
  "key \<notin> {''nocaseglob'', ''nullglob'', ''dotglob''} \<Longrightarrow>
   map_of (aliased e src) key = map_of (merge_props [(''cwd'', JStr (process_cwd e))] src) key"
  by (simp add: aliased_def map_of_expandAlias)

lemma map_of_aliased_cases:
  "map_of (aliased e src) key = map_of (merge_props [(''cwd'', JStr (process_cwd e))] src) key \<or>
   (map_of (aliased e src) key = Some (JBool True) \<and>
    key \<in> {''nocaseglob'', ''nullglob'', ''dotglob''})"
  by (simp add: aliased_def map_of_expandAlias)

lemma map_of_implied:
  "map_of (implied pattern ob) key =
     (if key = ''normalized'' then Some (JBool True)
      else if key = ''extglob'' \<and> \<not> hasOwn ob ''extglob'' \<and> isExtglob pattern
           then Some (JBool True)
      else if key = ''globstar'' \<and> \<not> hasOwn ob ''globstar'' \<and> indexOf pattern ''**'' \<noteq> - 1
           then Some (JBool True)
      else map_of ob key)"
  by (simp add: implied_def Let_def update_conv' hasOwn_map_of)

section \<open>What createOptions returns\<close>

lemma createOptions_canonical:
  "getProp h options ''normalized'' = JBool True \<Longrightarrow>
   createOptions e h pattern options = (Inr options, h)"
  by (simp add: createOptions_def getProp_truthy)

lemma createOptions_fresh:
  assumes "getProp h options ''normalized'' \<noteq> JBool True"
  shows "createOptions e h pattern options =
     (let ob = aliased e (ownProps (h @ [[(''cwd'', JStr (process_cwd e))]]) options)
      in if hasOwn ob ''hasOwnProperty''
         then (Inl (TypeError ''opts.hasOwnProperty is not a function''), h @ [ob])
         else (Inr (JRef (length h)), h @ [implied pattern ob]))"
proof -
  define base where "base = [(''cwd'', JStr (process_cwd e))]"
  define o1 where "o1 = merge_props base (ownProps (h @ [base]) options)"
  define o2 where "o2 = expandAlias ''nocase'' ''nocaseglob'' o1"
  define o3 where "o3 = expandAlias ''nonull'' ''nullglob'' o2"
  define o4 where "o4 = expandAlias ''dot'' ''dotglob'' o3"
  define o5 where "o5 = (if \<not> hasOwn o4 ''globstar'' \<and> indexOf pattern ''**'' \<noteq> - 1
                         then AList.update ''globstar'' (JBool True) o4 else o4)"
  define o6 where "o6 = (if \<not> hasOwn o5 ''extglob'' \<and> isExtglob pattern
                         then AList.update ''extglob'' (JBool True) o5 else o5)"
  have nc: "\<not> (truthy options \<and> getProp h options ''normalized'' = JBool True)"
    using assms by simp
  have e1: "extend (h @ [base]) (length h) options = h @ [o1]"
    by (simp add: extend_last o1_def)
  have e2: "(if getProp (h @ [o1]) (JRef (length h)) ''nocase'' = JBool True
             then setProp (h @ [o1]) (length h) ''nocaseglob'' (JBool True) else h @ [o1])
            = h @ [o2]"
    by (simp add: getProp_last o2_def expandAlias_def)
  have e3: "(if getProp (h @ [o2]) (JRef (length h)) ''nonull'' = JBool True
             then setProp (h @ [o2]) (length h) ''nullglob'' (JBool True) else h @ [o2])
            = h @ [o3]"
    by (simp add: getProp_last o3_def expandAlias_def)
  have e4: "(if getProp (h @ [o3]) (JRef (length h)) ''dot'' = JBool True
             then setProp (h @ [o3]) (length h) ''dotglob'' (JBool True) else h @ [o3])
            = h @ [o4]"
    by (simp add: getProp_last o4_def expandAlias_def)
  have e5: "(if \<not> hasOwn o4 ''globstar'' \<and> indexOf pattern ''**'' \<noteq> - 1
             then setProp (h @ [o4]) (length h) ''globstar'' (JBool True) else h @ [o4])
            = h @ [o5]"
    by (simp add: o5_def)
  have e6: "(if \<not> hasOwn o5 ''extglob'' \<and> isExtglob pattern
             then setProp (h @ [o5]) (length h) ''extglob'' (JBool True) else h @ [o5])
            = h @ [o6]"
    by (simp add: o6_def)
  have e7: "setProp (h @ [o6]) (length h) ''normalized'' (JBool True)
              = h @ [AList.update ''normalized'' (JBool True) o6]"
    by simp
  have lhs: "createOptions e h pattern options =
      (if hasOwn o4 ''hasOwnProperty''
       then (Inl (TypeError ''opts.hasOwnProperty is not a function''), h @ [o4])
       else (Inr (JRef (length h)), h @ [AList.update ''normalized'' (JBool True) o6]))"
    unfolding createOptions_def alloc_def Let_def prod.case
    by (simp only: nc if_False base_def [symmetric] e1 e2 e3 e4 props_last e5 e6 e7)
  have o4: "o4 = aliased e (ownProps (h @ [base]) options)"
    by (simp add: aliased_def o4_def o3_def o2_def o1_def base_def)
  have o7: "AList.update ''normalized'' (JBool True) o6 = implied pattern o4"
    by (simp only: implied_def Let_def o5_def o6_def)
  show ?thesis
    by (simp only: lhs o7 Let_def o4 base_def)
qed

lemma createOptions_fresh_Inr:
  assumes "getProp h options ''normalized'' \<noteq> JBool True"
    and "createOptions e h pattern options = (Inr opts, h1)"
  shows "opts = JRef (length h) \<and>
         h1 = h @ [implied pattern
                     (aliased e (ownProps (h @ [[(''cwd'', JStr (process_cwd e))]]) options))] \<and>
         \<not> hasOwn (aliased e (ownProps (h @ [[(''cwd'', JStr (process_cwd e))]]) options))
             ''hasOwnProperty''"
  using assms(2) by (auto simp: createOptions_fresh [OF assms(1)] Let_def split: if_splits)

lemma createOptions_Inr_normalized:
  assumes "createOptions e h pattern options = (Inr opts, h1)"
  shows "getProp h1 opts ''normalized'' = JBool True"
proof cases
  assume "getProp h options ''normalized'' = JBool True"
  with assms show ?thesis by (simp add: createOptions_canonical)
next
  assume nc: "getProp h options ''normalized'' \<noteq> JBool True"
  from createOptions_fresh_Inr [OF nc assms] obtain ob
    where "opts = JRef (length h)" and "h1 = h @ [implied pattern ob]" by blast
  then show ?thesis
    by (simp add: getProp_last map_of_implied)
qed

lemma hasOwn_aliased_hasOwnProperty:
  "hasOwn (aliased e (ownProps (h @ [[(''cwd'', JStr (process_cwd e))]]) options)) ''hasOwnProperty''
     \<longleftrightarrow> hasOwn (ownProps h options) ''hasOwnProperty''"
proof -
  let ?src = "ownProps (h @ [[(''cwd'', JStr (process_cwd e))]]) options"
  have "hasOwn (aliased e ?src) ''hasOwnProperty''
          \<longleftrightarrow> hasOwn (merge_props [(''cwd'', JStr (process_cwd e))] ?src) ''hasOwnProperty''"
    by (simp add: hasOwn_map_of map_of_aliased_other)
  also have "\<dots> \<longleftrightarrow> hasOwn ?src ''hasOwnProperty''"
    unfolding hasOwn_def keys_merge_props by simp
  also have "\<dots> \<longleftrightarrow> hasOwn (ownProps h options) ''hasOwnProperty''"
    by (simp add: hasOwn_alloc_other)
  finally show ?thesis .
qed

section \<open>Normalisation is idempotent\<close>

text \<open>
  C5: normalising the record that normalisation returned gives that record back and leaves
  the store as it is, so \<open>normalize(p, normalize(p, o)) = normalize(p, o)\<close>; a record
  whose \<open>normalized\<close> is \<open>true\<close> is returned unchanged, the very same object; and
  normalisation does return a record unless the caller's record has a key
  \<open>hasOwnProperty\<close>.
\<close>

theorem createOptions_idempotent:
  "(createOptions e h pattern options = (Inr opts, h1) \<longrightarrow>
      createOptions e h1 pattern opts = (Inr opts, h1)) \<and>
   (getProp h options ''normalized'' = JBool True \<longrightarrow>
      createOptions e h pattern options = (Inr options, h)) \<and>
   (\<not> hasOwn (ownProps h options) ''hasOwnProperty'' \<longrightarrow>
      (\<exists>opts' h'. createOptions e h pattern options = (Inr opts', h')))"
proof (intro conjI impI)
  assume "createOptions e h pattern options = (Inr opts, h1)"
  then have "getProp h1 opts ''normalized'' = JBool True"
    by (rule createOptions_Inr_normalized)
  then show "createOptions e h1 pattern opts = (Inr opts, h1)"
    by (rule createOptions_canonical)
next
  assume "getProp h options ''normalized'' = JBool True"
  then show "createOptions e h pattern options = (Inr options, h)"
    by (rule createOptions_canonical)
next
  assume no: "\<not> hasOwn (ownProps h options) ''hasOwnProperty''"
  show "\<exists>opts' h'. createOptions e h pattern options = (Inr opts', h')"
  proof cases
    assume "getProp h options ''normalized'' = JBool True"
    then show ?thesis by (simp add: createOptions_canonical)
  next
    assume nc: "getProp h options ''normalized'' \<noteq> JBool True"
    from no show ?thesis
      by (simp add: createOptions_fresh [OF nc] Let_def hasOwn_aliased_hasOwnProperty)
  qed
qed

theorem createOptions_idempotent_witness:
  "createOptions posix [[(''nocase'', JBool True)]] ''a/**'' (JRef 0) =
     (Inr (JRef 1),
      [[(''nocase'', JBool True)],
       [(''cwd'', JStr ''/home/u''), (''nocase'', JBool True), (''nocaseglob'', JBool True),
        (''globstar'', JBool True), (''normalized'', JBool True)]]) \<and>
   createOptions posix
      [[(''nocase'', JBool True)],
       [(''cwd'', JStr ''/home/u''), (''nocase'', JBool True), (''nocaseglob'', JBool True),
        (''globstar'', JBool True), (''normalized'', JBool True)]] ''a/**'' (JRef 1) =
     (Inr (JRef 1),
      [[(''nocase'', JBool True)],
       [(''cwd'', JStr ''/home/u''), (''nocase'', JBool True), (''nocaseglob'', JBool True),
        (''globstar'', JBool True), (''normalized'', JBool True)]])"
proof -
  have a: "createOptions posix [[(''nocase'', JBool True)]] ''a/**'' (JRef 0) =
     (Inr (JRef 1),
      [[(''nocase'', JBool True)],
       [(''cwd'', JStr ''/home/u''), (''nocase'', JBool True), (''nocaseglob'', JBool True),
        (''globstar'', JBool True), (''normalized'', JBool True)]])"
    by code_simp
  from a createOptions_idempotent [of posix "[[(''nocase'', JBool True)]]" "''a/**''" "JRef 0"
      "JRef 1"] show ?thesis
    by blast
qed

section \<open>Normalisation leaves the caller's record alone\<close>

text \<open>
  C9: when the caller's \<open>normalized\<close> is not exactly \<open>true\<close>, normalisation allocates
  one new object, at an address the store did not have, and returns a reference to it
  (unless the caller's record has a key \<open>hasOwnProperty\<close>, when it raises a TypeError);
  every object the store already had, the caller's record among them, keeps its
  properties.
\<close>

theorem createOptions_frame:
  assumes "getProp h options ''normalized'' \<noteq> JBool True"
    and "createOptions e h pattern options = (r, h1)"
  shows "length h1 = Suc (length h) \<and> take (length h) h1 = h \<and>
         (\<forall>b < length h. props h1 b = props h b) \<and>
         r = (if hasOwn (ownProps h options) ''hasOwnProperty''
              then Inl (TypeError ''opts.hasOwnProperty is not a function'')
              else Inr (JRef (length h)))"
proof -
  from assms(2) obtain ob where h1: "h1 = h @ [ob]"
    and r: "r = (if hasOwn (ownProps h options) ''hasOwnProperty''
                 then Inl (TypeError ''opts.hasOwnProperty is not a function'')
                 else Inr (JRef (length h)))"
    by (auto simp: createOptions_fresh [OF assms(1)] Let_def hasOwn_aliased_hasOwnProperty
        split: if_splits)
  from h1 r show ?thesis by simp
qed

theorem createOptions_frame_witness:
  "getProp [[(''dot'', JBool True)]] (JRef 0) ''normalized'' \<noteq> JBool True \<and>
   createOptions posix [[(''dot'', JBool True)]] ''a'' (JRef 0) =
     (Inr (JRef 1),
      [[(''dot'', JBool True)],
       [(''cwd'', JStr ''/home/u''), (''dot'', JBool True), (''dotglob'', JBool True),
        (''normalized'', JBool True)]]) \<and>
   props [[(''dot'', JBool True)],
          [(''cwd'', JStr ''/home/u''), (''dot'', JBool True), (''dotglob'', JBool True),
           (''normalized'', JBool True)]] 0 = props [[(''dot'', JBool True)]] 0"
proof -
  have a: "getProp [[(''dot'', JBool True)]] (JRef 0) ''normalized'' \<noteq> JBool True"
    by code_simp
  have b: "createOptions posix [[(''dot'', JBool True)]] ''a'' (JRef 0) =
     (Inr (JRef 1),
      [[(''dot'', JBool True)],
       [(''cwd'', JStr ''/home/u''), (''dot'', JBool True), (''dotglob'', JBool True),
        (''normalized'', JBool True)]])"
    by code_simp
  from createOptions_frame [OF a b] have
    "\<forall>b < length [[(''dot'', JBool True)]].
       props [[(''dot'', JBool True)],
              [(''cwd'', JStr ''/home/u''), (''dot'', JBool True), (''dotglob'', JBool True),
               (''normalized'', JBool True)]] b = props [[(''dot'', JBool True)]] b"
    by blast
  then have "props [[(''dot'', JBool True)],
          [(''cwd'', JStr ''/home/u''), (''dot'', JBool True), (''dotglob'', JBool True),
           (''normalized'', JBool True)]] 0 = props [[(''dot'', JBool True)]] 0"
    by simp
  with a b show ?thesis by blast
qed

section \<open>Substrings of the pattern\<close>

lemma indexOfFrom_found:
  "0 \<le> i \<Longrightarrow> indexOfFrom s sub i \<noteq> - 1 \<longleftrightarrow> (\<exists>u v. s = u @ sub @ v)"
proof (induction s arbitrary: i)
  case Nil
  then show ?case by auto
next
  case (Cons c cs)
  show ?case
  proof cases
    assume p: "prefix sub (c # cs)"
    then obtain v where "c # cs = sub @ v" by (auto simp: prefix_def)
    then have "c # cs = [] @ sub @ v" by simp
    then have "\<exists>u v. c # cs = u @ sub @ v" by blast
    with p Cons.prems show ?thesis by simp
  next
    assume np: "\<not> prefix sub (c # cs)"
    have "(\<exists>u v. c # cs = u @ sub @ v) \<longleftrightarrow> (\<exists>u v. cs = u @ sub @ v)"
    proof
      assume "\<exists>u v. c # cs = u @ sub @ v"
      then obtain u v where uv: "c # cs = u @ sub @ v" by blast
      with np have "u \<noteq> []" by (auto simp: prefix_def)
      then obtain u' where "u = c # u'" using uv by (cases u) auto
      with uv have "cs = u' @ sub @ v" by simp
      then show "\<exists>u v. cs = u @ sub @ v" by blast
    next
      assume "\<exists>u v. cs = u @ sub @ v"
      then obtain u v where "cs = u @ sub @ v" by blast
      then have "c # cs = (c # u) @ sub @ v" by simp
      then show "\<exists>u v. c # cs = u @ sub @ v" by blast
    qed
    moreover have "indexOfFrom cs sub (i + 1) \<noteq> - 1 \<longleftrightarrow> (\<exists>u v. cs = u @ sub @ v)"
      using Cons.prems by (intro Cons.IH) simp
    ultimately show ?thesis using np by simp
  qed
qed

lemma indexOf_found: "indexOf s sub \<noteq> - 1 \<longleftrightarrow> (\<exists>u v. s = u @ sub @ v)"
  by (simp add: indexOf_def indexOfFrom_found)

lemma isExtglob_found:
  "isExtglob s \<longleftrightarrow> (\<exists>u c v. s = u @ c # CHR ''('' # v \<and> c \<in> set ''?*+@!'')"
proof (induction s rule: isExtglob.induct)
  case (1 c d cs)
  have "(\<exists>u c' v. c # d # cs = u @ c' # CHR ''('' # v \<and> c' \<in> set ''?*+@!'') \<longleftrightarrow>
        (c \<in> set ''?*+@!'' \<and> d = CHR ''('') \<or>
        (\<exists>u c' v. d # cs = u @ c' # CHR ''('' # v \<and> c' \<in> set ''?*+@!'')"
    (is "?L \<longleftrightarrow> ?A \<or> ?R")
  proof
    assume ?L
    then obtain u c' v where uv: "c # d # cs = u @ c' # CHR ''('' # v"
      and c': "c' \<in> set ''?*+@!''" by blast
    show "?A \<or> ?R"
    proof (cases u)
      case Nil
      with uv c' show ?thesis by simp
    next
      case (Cons x u')
      with uv have "d # cs = u' @ c' # CHR ''('' # v" by simp
      with c' show ?thesis by blast
    qed
  next
    assume "?A \<or> ?R"
    then show ?L
    proof
      assume ?A
      then have "c # d # cs = [] @ c # CHR ''('' # cs \<and> c \<in> set ''?*+@!''" by simp
      then show ?L by blast
    next
      assume ?R
      then obtain u c' v where "d # cs = u @ c' # CHR ''('' # v"
        and c': "c' \<in> set ''?*+@!''" by blast
      then have "c # d # cs = (c # u) @ c' # CHR ''('' # v" by simp
      with c' show ?L by blast
    qed
  qed
  with 1 show ?case by simp
qed (auto simp: Cons_eq_append_conv)

text \<open>A property of the returned record that no alias writes and that is not \<open>cwd\<close>.\<close>

lemma createOptions_map_of:
  assumes nc: "getProp h options ''normalized'' \<noteq> JBool True"
    and co: "createOptions e h pattern options = (Inr opts, h1)"
    and key: "key \<notin> {''nocaseglob'', ''nullglob'', ''dotglob'', ''cwd''}"
    and d: "distinct (map fst (ownProps h options))"
  shows "map_of (ownProps h1 opts) key =
     (if key = ''normalized'' then Some (JBool True)
      else if key = ''extglob'' \<and> \<not> hasOwn (ownProps h options) ''extglob'' \<and> isExtglob pattern
           then Some (JBool True)
      else if key = ''globstar'' \<and> \<not> hasOwn (ownProps h options) ''globstar''
              \<and> indexOf pattern ''**'' \<noteq> - 1
           then Some (JBool True)
      else map_of (ownProps h options) key)"
proof -
  let ?src = "ownProps (h @ [[(''cwd'', JStr (process_cwd e))]]) options"
  have ds: "distinct (map fst ?src)" using d by (rule ownProps_alloc_distinct)
  have m: "map_of (aliased e ?src) k = map_of (ownProps h options) k"
    if "k \<notin> {''nocaseglob'', ''nullglob'', ''dotglob'', ''cwd''}" for k
  proof -
    from that have k: "k \<notin> {''nocaseglob'', ''nullglob'', ''dotglob''}" and c: "k \<noteq> ''cwd''"
      by auto
    show ?thesis
      by (simp add: map_of_aliased_other [OF k] map_of_merge_props [OF ds]
          ownProps_alloc_other [OF c] c split: option.splits)
  qed
  from createOptions_fresh_Inr [OF nc co]
  have r: "ownProps h1 opts = implied pattern (aliased e ?src)" by simp
  show ?thesis
    using key by (simp add: r map_of_implied hasOwn_map_of m)
qed

section \<open>Which keys the returned record has\<close>

lemma hasOwn_merge_props:
  "hasOwn (merge_props ob src) key \<longleftrightarrow> hasOwn ob key \<or> hasOwn src key"
  unfolding hasOwn_def keys_merge_props by simp

lemma hasOwn_aliased_keeps:
  assumes "hasOwn (merge_props [(''cwd'', JStr (process_cwd e))] src) key"
  shows "hasOwn (aliased e src) key"
  using assms map_of_aliased_cases [of e src key] unfolding hasOwn_map_of by auto

lemma hasOwn_implied_keeps: "hasOwn ob key \<Longrightarrow> hasOwn (implied pattern ob) key"
  unfolding hasOwn_map_of by (simp add: map_of_implied)

lemma createOptions_keeps_keys:
  assumes nc: "getProp h options ''normalized'' \<noteq> JBool True"
    and co: "createOptions e h pattern options = (Inr opts, h1)"
    and k: "hasOwn (ownProps h options) key \<or> key = ''cwd'' \<or> key = ''normalized''"
  shows "hasOwn (ownProps h1 opts) key"
proof -
  let ?src = "ownProps (h @ [[(''cwd'', JStr (process_cwd e))]]) options"
  from createOptions_fresh_Inr [OF nc co]
  have r: "ownProps h1 opts = implied pattern (aliased e ?src)" by simp
  show ?thesis
  proof cases
    assume "key = ''normalized''"
    then show ?thesis by (simp add: r hasOwn_map_of map_of_implied)
  next
    assume "key \<noteq> ''normalized''"
    with k have "key = ''cwd'' \<or> (key \<noteq> ''cwd'' \<and> hasOwn (ownProps h options) key)" by blast
    then have "hasOwn (merge_props [(''cwd'', JStr (process_cwd e))] ?src) key"
    proof
      assume "key = ''cwd''"
      then show ?thesis by (simp add: hasOwn_merge_props) (simp add: hasOwn_def)
    next
      assume "key \<noteq> ''cwd'' \<and> hasOwn (ownProps h options) key"
      then show ?thesis by (simp add: hasOwn_merge_props hasOwn_alloc_other)
    qed
    then show ?thesis
      unfolding r by (intro hasOwn_implied_keeps hasOwn_aliased_keeps)
  qed
qed

lemma createOptions_added_key:
  assumes nc: "getProp h options ''normalized'' \<noteq> JBool True"
    and co: "createOptions e h pattern options = (Inr opts, h1)"
    and k: "\<not> hasOwn (ownProps h options) key" "key \<noteq> ''cwd''"
    and r: "hasOwn (ownProps h1 opts) key"
  shows "map_of (ownProps h1 opts) key = Some (JBool True) \<and>
         key \<in> {''cwd'', ''normalized'', ''nocaseglob'', ''nullglob'', ''dotglob'', ''globstar'',
                 ''extglob''}"
proof -
  let ?src = "ownProps (h @ [[(''cwd'', JStr (process_cwd e))]]) options"
  from createOptions_fresh_Inr [OF nc co]
  have eq: "ownProps h1 opts = implied pattern (aliased e ?src)" by simp
  from k have "\<not> hasOwn (merge_props [(''cwd'', JStr (process_cwd e))] ?src) key"
    by (simp add: hasOwn_merge_props hasOwn_alloc_other) (simp add: hasOwn_def)
  then have "map_of (merge_props [(''cwd'', JStr (process_cwd e))] ?src) key = None"
    by (simp add: hasOwn_map_of)
  with map_of_aliased_cases [of e ?src key]
  have a: "map_of (aliased e ?src) key = None \<or>
           (map_of (aliased e ?src) key = Some (JBool True) \<and>
            key \<in> {''nocaseglob'', ''nullglob'', ''dotglob''})"
    by simp
  from r have "map_of (implied pattern (aliased e ?src)) key \<noteq> None"
    by (simp add: eq hasOwn_map_of)
  with a show ?thesis
    unfolding eq map_of_implied by (auto split: if_splits)
qed

section \<open>Toggles implied by the pattern\<close>

text \<open>
  C4, as the code has it: for a raw record whose \<open>normalized\<close> is not exactly \<open>true\<close>
  and which has each key once, \<open>globstar\<close> is \<open>true\<close> in the returned record exactly
  when the raw record sets \<open>globstar\<close> to \<open>true\<close>, or has no key \<open>globstar\<close> at all
  and the pattern contains \<^verbatim>\<open>**\<close>; and \<open>extglob\<close> is \<open>true\<close> exactly when the raw record
  sets it to \<open>true\<close>, or has no key \<open>extglob\<close> and the pattern contains one of
  \<^verbatim>\<open>? * + @ !\<close> immediately followed by \<^verbatim>\<open>(\<close>. A key that is present in the raw
  record keeps the value it has there, such as \<open>false\<close>, whatever the pattern contains:
  the value in the returned record is \<open>true\<close> where the key was absent and the pattern
  implies it, and the raw record's value otherwise; and the returned record has the key
  exactly when the raw record has it or the pattern implies it.
\<close>

theorem createOptions_implied_toggles:
  assumes "getProp h options ''normalized'' \<noteq> JBool True"
    and "createOptions e h pattern options = (Inr opts, h1)"
    and "distinct (map fst (ownProps h options))"
  shows "(getProp h1 opts ''globstar'' = JBool True \<longleftrightarrow>
            getProp h options ''globstar'' = JBool True \<or>
            \<not> hasOwn (ownProps h options) ''globstar'' \<and> (\<exists>u v. pattern = u @ ''**'' @ v)) \<and>
         (getProp h1 opts ''extglob'' = JBool True \<longleftrightarrow>
            getProp h options ''extglob'' = JBool True \<or>
            \<not> hasOwn (ownProps h options) ''extglob'' \<and>
            (\<exists>u c v. pattern = u @ c # CHR ''('' # v \<and> c \<in> set ''?*+@!'')) \<and>
         getProp h1 opts ''globstar'' =
           (if \<not> hasOwn (ownProps h options) ''globstar'' \<and> (\<exists>u v. pattern = u @ ''**'' @ v)
            then JBool True else getProp h options ''globstar'') \<and>
         getProp h1 opts ''extglob'' =
           (if \<not> hasOwn (ownProps h options) ''extglob'' \<and>
               (\<exists>u c v. pattern = u @ c # CHR ''('' # v \<and> c \<in> set ''?*+@!'')
            then JBool True else getProp h options ''extglob'') \<and>
         (hasOwn (ownProps h1 opts) ''globstar'' \<longleftrightarrow>
            hasOwn (ownProps h options) ''globstar'' \<or> (\<exists>u v. pattern = u @ ''**'' @ v)) \<and>
         (hasOwn (ownProps h1 opts) ''extglob'' \<longleftrightarrow>
            hasOwn (ownProps h options) ''extglob'' \<or>
            (\<exists>u c v. pattern = u @ c # CHR ''('' # v \<and> c \<in> set ''?*+@!''))"
proof -
  have g: "map_of (ownProps h1 opts) ''globstar'' =
      (if \<not> hasOwn (ownProps h options) ''globstar'' \<and> indexOf pattern ''**'' \<noteq> - 1
       then Some (JBool True) else map_of (ownProps h options) ''globstar'')"
    by (simp add: createOptions_map_of [OF assms(1,2) _ assms(3)])
  have x: "map_of (ownProps h1 opts) ''extglob'' =
      (if \<not> hasOwn (ownProps h options) ''extglob'' \<and> isExtglob pattern
       then Some (JBool True) else map_of (ownProps h options) ''extglob'')"
    by (simp add: createOptions_map_of [OF assms(1,2) _ assms(3)])
  have 1: "getProp h1 opts ''globstar'' = JBool True \<longleftrightarrow>
            getProp h options ''globstar'' = JBool True \<or>
            \<not> hasOwn (ownProps h options) ''globstar'' \<and> indexOf pattern ''**'' \<noteq> - 1"
    unfolding getProp_JBool g by (auto simp: hasOwn_map_of)
  have 2: "getProp h1 opts ''extglob'' = JBool True \<longleftrightarrow>
            getProp h options ''extglob'' = JBool True \<or>
            \<not> hasOwn (ownProps h options) ''extglob'' \<and> isExtglob pattern"
    unfolding getProp_JBool x by (auto simp: hasOwn_map_of)
  have 3: "getProp h1 opts ''globstar'' =
           (if \<not> hasOwn (ownProps h options) ''globstar'' \<and> indexOf pattern ''**'' \<noteq> - 1
            then JBool True else getProp h options ''globstar'')"
    unfolding getProp_def g by simp
  have 4: "getProp h1 opts ''extglob'' =
           (if \<not> hasOwn (ownProps h options) ''extglob'' \<and> isExtglob pattern
            then JBool True else getProp h options ''extglob'')"
    unfolding getProp_def x by simp
  have 5: "hasOwn (ownProps h1 opts) ''globstar'' \<longleftrightarrow>
            hasOwn (ownProps h options) ''globstar'' \<or> indexOf pattern ''**'' \<noteq> - 1"
    unfolding hasOwn_map_of [of "ownProps h1 opts"] g by (auto simp: hasOwn_map_of)
  have 6: "hasOwn (ownProps h1 opts) ''extglob'' \<longleftrightarrow>
            hasOwn (ownProps h options) ''extglob'' \<or> isExtglob pattern"
    unfolding hasOwn_map_of [of "ownProps h1 opts"] x by (auto simp: hasOwn_map_of)
  from 1 [unfolded indexOf_found] 2 [unfolded isExtglob_found]
    3 [unfolded indexOf_found] 4 [unfolded isExtglob_found]
    5 [unfolded indexOf_found] 6 [unfolded isExtglob_found]
  show ?thesis by (intro conjI)
qed

theorem createOptions_implied_toggles_witness:
  "getProp [[(''extglob'', JBool False)]] (JRef 0) ''normalized'' \<noteq> JBool True \<and>
   createOptions posix [[(''extglob'', JBool False)]] ''a/**/@(b)'' (JRef 0) =
     (Inr (JRef 1),
      [[(''extglob'', JBool False)],
       [(''cwd'', JStr ''/home/u''), (''extglob'', JBool False), (''globstar'', JBool True),
        (''normalized'', JBool True)]]) \<and>
   distinct (map fst (ownProps [[(''extglob'', JBool False)]] (JRef 0))) \<and>
   getProp [[(''extglob'', JBool False)],
       [(''cwd'', JStr ''/home/u''), (''extglob'', JBool False), (''globstar'', JBool True),
        (''normalized'', JBool True)]] (JRef 1) ''globstar'' = JBool True \<and>
   getProp [[(''extglob'', JBool False)],
       [(''cwd'', JStr ''/home/u''), (''extglob'', JBool False), (''globstar'', JBool True),
        (''normalized'', JBool True)]] (JRef 1) ''extglob'' = JBool False"
proof -
  let ?h = "[[(''extglob'', JBool False)]]"
  let ?h1 = "[[(''extglob'', JBool False)],
       [(''cwd'', JStr ''/home/u''), (''extglob'', JBool False), (''globstar'', JBool True),
        (''normalized'', JBool True)]]"
  have a: "getProp ?h (JRef 0) ''normalized'' \<noteq> JBool True" by code_simp
  have b: "createOptions posix ?h ''a/**/@(b)'' (JRef 0) = (Inr (JRef 1), ?h1)" by code_simp
  have c: "distinct (map fst (ownProps ?h (JRef 0)))" by code_simp
  have d: "\<not> hasOwn (ownProps ?h (JRef 0)) ''globstar''" by code_simp
  have d': "hasOwn (ownProps ?h (JRef 0)) ''extglob''" by code_simp
  have r: "getProp ?h (JRef 0) ''extglob'' = JBool False" by code_simp
  have "''a/**/@(b)'' = ''a/'' @ ''**'' @ ''/@(b)''" by simp
  then have ex: "\<exists>u v. ''a/**/@(b)'' = u @ ''**'' @ v" by (intro exI)
  note t = createOptions_implied_toggles [OF a b c]
  from t have "getProp ?h1 (JRef 1) ''globstar'' =
           (if \<not> hasOwn (ownProps ?h (JRef 0)) ''globstar'' \<and> (\<exists>u v. ''a/**/@(b)'' = u @ ''**'' @ v)
            then JBool True else getProp ?h (JRef 0) ''globstar'')"
    by (rule conjunct2 [THEN conjunct2, THEN conjunct1])
  with d ex have 1: "getProp ?h1 (JRef 1) ''globstar'' = JBool True"
    by (simp only: simp_thms if_True)
  from t have "getProp ?h1 (JRef 1) ''extglob'' =
           (if \<not> hasOwn (ownProps ?h (JRef 0)) ''extglob'' \<and>
               (\<exists>u c v. ''a/**/@(b)'' = u @ c # CHR ''('' # v \<and> c \<in> set ''?*+@!'')
            then JBool True else getProp ?h (JRef 0) ''extglob'')"
    by (rule conjunct2 [THEN conjunct2, THEN conjunct2, THEN conjunct1])
  with d' r have 2: "getProp ?h1 (JRef 1) ''extglob'' = JBool False"
    by (simp only: simp_thms if_False)
  from a b c 1 2 show ?thesis by (intro conjI)
qed

text \<open>The claim as written fails where the caller sets \<open>globstar\<close> to \<open>false\<close>: the
  pattern \<^verbatim>\<open>**\<close> does not turn it on.\<close>

theorem createOptions_globstar_false_counterexample:
  "createOptions posix [[(''globstar'', JBool False)]] ''**'' (JRef 0) =
     (Inr (JRef 1),
      [[(''globstar'', JBool False)],
       [(''cwd'', JStr ''/home/u''), (''globstar'', JBool False),
        (''normalized'', JBool True)]]) \<and>
   indexOf ''**'' ''**'' = 0 \<and>
   getProp [[(''globstar'', JBool False)],
       [(''cwd'', JStr ''/home/u''), (''globstar'', JBool False),
        (''normalized'', JBool True)]] (JRef 1) ''globstar'' = JBool False"
  by code_simp

section \<open>The keys of the returned record\<close>

text \<open>
  C3, as the code has it: for a raw record whose \<open>normalized\<close> is not exactly \<open>true\<close>,
  the returned record has \<open>normalized = true\<close> and \<open>cwd\<close>, keeps every key of the raw
  record (the alias keys \<open>dot\<close>, \<open>nocase\<close>, \<open>nonull\<close> and any other key included), and
  has besides those only \<open>cwd\<close>, \<open>normalized\<close> and the toggles \<open>nocaseglob\<close>,
  \<open>nullglob\<close>, \<open>dotglob\<close>, \<open>globstar\<close>, \<open>extglob\<close>; an alias key is in the returned
  record exactly when it is in the raw one; and a toggle that the raw record did not have
  is \<open>true\<close> where the returned record has it.
\<close>

theorem createOptions_record:
  assumes "getProp h options ''normalized'' \<noteq> JBool True"
    and "createOptions e h pattern options = (Inr opts, h1)"
  shows "getProp h1 opts ''normalized'' = JBool True \<and>
         hasOwn (ownProps h1 opts) ''cwd'' \<and>
         set (map fst (ownProps h options)) \<subseteq> set (map fst (ownProps h1 opts)) \<and>
         set (map fst (ownProps h1 opts)) \<subseteq>
           set (map fst (ownProps h options)) \<union>
           {''cwd'', ''normalized'', ''nocaseglob'', ''nullglob'', ''dotglob'', ''globstar'',
            ''extglob''} \<and>
         (\<forall>key \<in> {''dot'', ''nocase'', ''nonull''}.
            hasOwn (ownProps h1 opts) key \<longleftrightarrow> hasOwn (ownProps h options) key) \<and>
         (\<forall>key \<in> set valid.
            \<not> hasOwn (ownProps h options) key \<longrightarrow> hasOwn (ownProps h1 opts) key \<longrightarrow>
            getProp h1 opts key = JBool True)"
proof (intro conjI)
  show "getProp h1 opts ''normalized'' = JBool True"
    using assms(2) by (rule createOptions_Inr_normalized)
  show "hasOwn (ownProps h1 opts) ''cwd''"
    using assms by (rule createOptions_keeps_keys) simp
  show sub: "set (map fst (ownProps h options)) \<subseteq> set (map fst (ownProps h1 opts))"
    using createOptions_keeps_keys [OF assms] by (auto simp: hasOwn_def)
  show sup: "set (map fst (ownProps h1 opts)) \<subseteq>
           set (map fst (ownProps h options)) \<union>
           {''cwd'', ''normalized'', ''nocaseglob'', ''nullglob'', ''dotglob'', ''globstar'',
            ''extglob''}"
  proof
    fix key assume "key \<in> set (map fst (ownProps h1 opts))"
    then have r: "hasOwn (ownProps h1 opts) key" by (simp add: hasOwn_def)
    show "key \<in> set (map fst (ownProps h options)) \<union>
           {''cwd'', ''normalized'', ''nocaseglob'', ''nullglob'', ''dotglob'', ''globstar'',
            ''extglob''}"
    proof cases
      assume "hasOwn (ownProps h options) key \<or> key = ''cwd''"
      then show ?thesis
      proof
        assume "hasOwn (ownProps h options) key"
        then show ?thesis by (intro UnI1) (simp only: hasOwn_def)
      next
        assume "key = ''cwd''"
        then show ?thesis by (intro UnI2 insertI1) simp
      qed
    next
      assume "\<not> (hasOwn (ownProps h options) key \<or> key = ''cwd'')"
      then have "\<not> hasOwn (ownProps h options) key" and "key \<noteq> ''cwd''" by auto
      from createOptions_added_key [OF assms this r] show ?thesis
        by (intro UnI2) (rule conjunct2)
    qed
  qed
  show "\<forall>key \<in> {''dot'', ''nocase'', ''nonull''}.
            hasOwn (ownProps h1 opts) key \<longleftrightarrow> hasOwn (ownProps h options) key"
  proof -
    have "hasOwn (ownProps h1 opts) key \<longleftrightarrow> hasOwn (ownProps h options) key"
      if out: "key \<notin> {''cwd'', ''normalized'', ''nocaseglob'', ''nullglob'', ''dotglob'',
                        ''globstar'', ''extglob''}" for key
    proof
      assume r: "hasOwn (ownProps h1 opts) key"
      show "hasOwn (ownProps h options) key"
      proof (rule ccontr)
        assume n: "\<not> hasOwn (ownProps h options) key"
        from out have c: "key \<noteq> ''cwd''" by (simp only: insert_iff de_Morgan_disj) simp
        from createOptions_added_key [OF assms n c r]
        have "key \<in> {''cwd'', ''normalized'', ''nocaseglob'', ''nullglob'', ''dotglob'',
                        ''globstar'', ''extglob''}"
          by (rule conjunct2)
        with out show False by (rule notE)
      qed
    next
      assume "hasOwn (ownProps h options) key"
      then show "hasOwn (ownProps h1 opts) key"
        by (intro createOptions_keeps_keys [OF assms] disjI1)
    qed
    then show ?thesis by simp
  qed
  show "\<forall>key \<in> set valid.
            \<not> hasOwn (ownProps h options) key \<longrightarrow> hasOwn (ownProps h1 opts) key \<longrightarrow>
            getProp h1 opts key = JBool True"
  proof (intro ballI impI)
    fix key assume v: "key \<in> set valid" and n: "\<not> hasOwn (ownProps h options) key"
      and r: "hasOwn (ownProps h1 opts) key"
    from v have "key \<noteq> ''cwd''" by (auto simp: valid_def)
    from createOptions_added_key [OF assms n this r] show "getProp h1 opts key = JBool True"
      by (simp add: getProp_JBool)
  qed
qed

theorem createOptions_record_witness:
  "getProp [[(''dot'', JBool True)]] (JRef 0) ''normalized'' \<noteq> JBool True \<and>
   createOptions posix [[(''dot'', JBool True)]] ''a'' (JRef 0) =
     (Inr (JRef 1),
      [[(''dot'', JBool True)],
       [(''cwd'', JStr ''/home/u''), (''dot'', JBool True), (''dotglob'', JBool True),
        (''normalized'', JBool True)]]) \<and>
   getProp [[(''dot'', JBool True)],
       [(''cwd'', JStr ''/home/u''), (''dot'', JBool True), (''dotglob'', JBool True),
        (''normalized'', JBool True)]] (JRef 1) ''normalized'' = JBool True \<and>
   hasOwn (ownProps [[(''dot'', JBool True)],
       [(''cwd'', JStr ''/home/u''), (''dot'', JBool True), (''dotglob'', JBool True),
        (''normalized'', JBool True)]] (JRef 1)) ''cwd''"
proof -
  have a: "getProp [[(''dot'', JBool True)]] (JRef 0) ''normalized'' \<noteq> JBool True"
    by code_simp
  have b: "createOptions posix [[(''dot'', JBool True)]] ''a'' (JRef 0) =
     (Inr (JRef 1),
      [[(''dot'', JBool True)],
       [(''cwd'', JStr ''/home/u''), (''dot'', JBool True), (''dotglob'', JBool True),
        (''normalized'', JBool True)]])"
    by code_simp
  note t = createOptions_record [OF a b]
  from t have 1: "getProp [[(''dot'', JBool True)],
       [(''cwd'', JStr ''/home/u''), (''dot'', JBool True), (''dotglob'', JBool True),
        (''normalized'', JBool True)]] (JRef 1) ''normalized'' = JBool True"
    by (rule conjunct1)
  from t have 2: "hasOwn (ownProps [[(''dot'', JBool True)],
       [(''cwd'', JStr ''/home/u''), (''dot'', JBool True), (''dotglob'', JBool True),
        (''normalized'', JBool True)]] (JRef 1)) ''cwd''"
    by (rule conjunct2 [THEN conjunct1])
  from a b 1 2 show ?thesis by (intro conjI)
qed

text \<open>The claim as written fails on the alias keys: \<open>dot\<close> is still in the returned
  record.\<close>

theorem createOptions_keeps_alias_counterexample:
  "createOptions posix [[(''dot'', JBool True)]] ''a'' (JRef 0) =
     (Inr (JRef 1),
      [[(''dot'', JBool True)],
       [(''cwd'', JStr ''/home/u''), (''dot'', JBool True), (''dotglob'', JBool True),
        (''normalized'', JBool True)]]) \<and>
   hasOwn (ownProps [[(''dot'', JBool True)],
       [(''cwd'', JStr ''/home/u''), (''dot'', JBool True), (''dotglob'', JBool True),
        (''normalized'', JBool True)]] (JRef 1)) ''dot''"
  by code_simp

section \<open>The argument list\<close>

lemma cmd_loop_eq:
  "cmd_loop keys args =
     args @ concat (map (\<lambda>key. [''-O'', key]) (filter (\<lambda>key. key \<in> set valid) keys))"
  by (induction keys arbitrary: args) simp_all

lemma concat_pairs_contains:
  assumes "key \<in> set ks"
  shows "\<exists>pre post. concat (map (\<lambda>k. [a, k]) ks) @ rest = pre @ a # key # post"
proof -
  from assms obtain ys zs where "ks = ys @ key # zs" by (auto simp: in_set_conv_decomp)
  then have "concat (map (\<lambda>k. [a, k]) ks) @ rest =
      concat (map (\<lambda>k. [a, k]) ys) @ a # key # (concat (map (\<lambda>k. [a, k]) zs) @ rest)"
    by simp
  then show ?thesis by blast
qed

lemma truthy_getProp_hasOwn: "truthy (getProp h v key) \<Longrightarrow> hasOwn (ownProps h v) key"
  by (auto simp: getProp_def hasOwn_map_of split: option.splits)

lemma cmd_eq:
  assumes "\<not> hasOwn (ownProps h options) ''hasOwnProperty''"
  shows "cmd h str pattern options =
           Inr (concat (map (\<lambda>key. [''-O'', key])
                  (filter (\<lambda>key. key \<in> set valid) (map fst (ownProps h options))))
                @ [''-c'', script str pattern])"
  using assms by (simp add: cmd_def cmd_loop_eq)

lemma toggle_names_pairs:
  "toggle_names (concat (map (\<lambda>key. [''-O'', key]) ks) @ [''-c'', s]) = ks"
  by (induction ks) simp_all

text \<open>
  C2, as the code has it: for a record without a key \<open>hasOwnProperty\<close> (a canonical one
  in particular), the argument list contains the pair \<^verbatim>\<open>-O\<close>, name for each of the six
  toggle keys that is present and truthy in the record, and the pairs of these keys stand
  in the order in which the record enumerates its keys, which need not be the order of
  the table.
\<close>

theorem cmd_toggles:
  assumes "\<not> hasOwn (ownProps h options) ''hasOwnProperty''"
  shows "\<exists>args. cmd h str pattern options = Inr args \<and>
           (\<forall>key \<in> set valid. truthy (getProp h options key) \<longrightarrow>
              (\<exists>pre post. args = pre @ ''-O'' # key # post)) \<and>
           filter (\<lambda>key. truthy (getProp h options key)) (toggle_names args) =
             filter (\<lambda>key. key \<in> set valid \<and> truthy (getProp h options key))
               (map fst (ownProps h options))"
proof -
  let ?ks = "filter (\<lambda>key. key \<in> set valid) (map fst (ownProps h options))"
  let ?args = "concat (map (\<lambda>key. [''-O'', key]) ?ks) @ [''-c'', script str pattern]"
  have c: "cmd h str pattern options = Inr ?args"
    using assms by (rule cmd_eq)
  have p: "\<exists>pre post. ?args = pre @ ''-O'' # key # post"
    if v: "key \<in> set valid" and t: "truthy (getProp h options key)" for key
  proof -
    from t have "hasOwn (ownProps h options) key" by (rule truthy_getProp_hasOwn)
    with v have "key \<in> set ?ks" by (simp add: hasOwn_def)
    then show ?thesis by (rule concat_pairs_contains)
  qed
  have o: "filter (\<lambda>key. truthy (getProp h options key)) (toggle_names ?args) =
             filter (\<lambda>key. key \<in> set valid \<and> truthy (getProp h options key))
               (map fst (ownProps h options))"
    by (simp only: toggle_names_pairs filter_filter conj_commute)
  from c p o show ?thesis by blast
qed

theorem cmd_toggles_witness:
  "\<not> hasOwn (ownProps [[(''cwd'', JStr ''/home/u''), (''nocaseglob'', JBool True),
        (''extglob'', JBool True), (''normalized'', JBool True)]] (JRef 0)) ''hasOwnProperty'' \<and>
   (\<exists>args. cmd [[(''cwd'', JStr ''/home/u''), (''nocaseglob'', JBool True),
        (''extglob'', JBool True), (''normalized'', JBool True)]] ''foo'' ''@(foo|bar)'' (JRef 0) =
       Inr args \<and>
     filter (\<lambda>key. truthy (getProp [[(''cwd'', JStr ''/home/u''), (''nocaseglob'', JBool True),
        (''extglob'', JBool True), (''normalized'', JBool True)]] (JRef 0) key)) (toggle_names args) =
     [''nocaseglob'', ''extglob''])"
proof -
  let ?h = "[[(''cwd'', JStr ''/home/u''), (''nocaseglob'', JBool True),
        (''extglob'', JBool True), (''normalized'', JBool True)]]"
  have a: "\<not> hasOwn (ownProps ?h (JRef 0)) ''hasOwnProperty''" by code_simp
  have e: "filter (\<lambda>key. key \<in> set valid \<and> truthy (getProp ?h (JRef 0) key))
               (map fst (ownProps ?h (JRef 0))) = [''nocaseglob'', ''extglob'']"
    by code_simp
  from cmd_toggles [OF a, of "''foo''" "''@(foo|bar)''"]
  obtain args where c: "cmd ?h ''foo'' ''@(foo|bar)'' (JRef 0) = Inr args"
    and o: "filter (\<lambda>key. truthy (getProp ?h (JRef 0) key)) (toggle_names args) =
             filter (\<lambda>key. key \<in> set valid \<and> truthy (getProp ?h (JRef 0) key))
               (map fst (ownProps ?h (JRef 0)))"
    by (elim exE conjE)
  from o have "filter (\<lambda>key. truthy (getProp ?h (JRef 0) key)) (toggle_names args) =
      [''nocaseglob'', ''extglob'']"
    by (simp only: e)
  with c have "\<exists>args. cmd ?h ''foo'' ''@(foo|bar)'' (JRef 0) = Inr args \<and>
     filter (\<lambda>key. truthy (getProp ?h (JRef 0) key)) (toggle_names args) =
     [''nocaseglob'', ''extglob'']"
    by (intro exI conjI)
  with a show ?thesis by (rule conjI)
qed

text \<open>The claim as written fails on the order: the canonical record of a caller who
  wrote \<open>nullglob\<close> before \<open>dotglob\<close> gets the pair of \<open>nullglob\<close> first.\<close>

theorem cmd_order_counterexample:
  "createOptions posix [[(''nullglob'', JBool True), (''dotglob'', JBool True)]] ''f*'' (JRef 0) =
     (Inr (JRef 1),
      [[(''nullglob'', JBool True), (''dotglob'', JBool True)],
       [(''cwd'', JStr ''/home/u''), (''nullglob'', JBool True), (''dotglob'', JBool True),
        (''normalized'', JBool True)]]) \<and>
   cmd [[(''nullglob'', JBool True), (''dotglob'', JBool True)],
        [(''cwd'', JStr ''/home/u''), (''nullglob'', JBool True), (''dotglob'', JBool True),
         (''normalized'', JBool True)]] ''foo'' ''f*'' (JRef 1) =
     Inr [''-O'', ''nullglob'', ''-O'', ''dotglob'', ''-c'', script ''foo'' ''f*'']"
  by code_simp

text \<open>
  C7: whenever \<^verbatim>\<open>cmd\<close> returns (it does unless the record has a key
  \<open>hasOwnProperty\<close>), the list ends with \<^verbatim>\<open>-c\<close> and the one script in which the
  subject and the pattern stand as they were given, and \<^verbatim>\<open>-c\<close> occurs nowhere before.
\<close>

theorem cmd_script:
  "(\<not> hasOwn (ownProps h options) ''hasOwnProperty'' \<longrightarrow>
      (\<exists>args. cmd h str pattern options = Inr args)) \<and>
   (cmd h str pattern options = Inr args \<longrightarrow>
      (\<exists>toggles. args = toggles @ [''-c'',
           ''IFS=$'' @ [CHR 0x22, CHR 0x0A, CHR 0x22] @ ''; if [[ '' @ [CHR 0x22] @ str
             @ [CHR 0x22] @ '' = '' @ pattern @ '' ]]; then echo true; fi''] \<and>
         ''-c'' \<notin> set toggles))"
proof (intro conjI impI)
  assume "\<not> hasOwn (ownProps h options) ''hasOwnProperty''"
  then show "\<exists>args. cmd h str pattern options = Inr args"
    by (simp add: cmd_def)
next
  assume a: "cmd h str pattern options = Inr args"
  let ?t = "concat (map (\<lambda>key. [''-O'', key])
              (filter (\<lambda>key. key \<in> set valid) (map fst (ownProps h options))))"
  from a have "args = ?t @ [''-c'', script str pattern]"
    by (simp add: cmd_def cmd_loop_eq split: if_splits)
  moreover have "''-c'' \<notin> set valid" by (simp add: valid_def)
  then have "''-c'' \<notin> set ?t" by auto
  ultimately show "\<exists>toggles. args = toggles @ [''-c'',
           ''IFS=$'' @ [CHR 0x22, CHR 0x0A, CHR 0x22] @ ''; if [[ '' @ [CHR 0x22] @ str
             @ [CHR 0x22] @ '' = '' @ pattern @ '' ]]; then echo true; fi''] \<and>
         ''-c'' \<notin> set toggles"
    unfolding script_def by blast
qed

theorem cmd_script_witness:
  "cmd [[(''extglob'', JBool True), (''normalized'', JBool True)]] ''foo'' ''@(foo|bar)'' (JRef 0) =
     Inr [''-O'', ''extglob'', ''-c'', script ''foo'' ''@(foo|bar)''] \<and>
   (\<exists>toggles. [''-O'', ''extglob'', ''-c'', script ''foo'' ''@(foo|bar)''] = toggles @ [''-c'',
           ''IFS=$'' @ [CHR 0x22, CHR 0x0A, CHR 0x22] @ ''; if [[ '' @ [CHR 0x22] @ ''foo''
             @ [CHR 0x22] @ '' = '' @ ''@(foo|bar)'' @ '' ]]; then echo true; fi''] \<and>
         ''-c'' \<notin> set toggles)"
proof -
  have a: "cmd [[(''extglob'', JBool True), (''normalized'', JBool True)]] ''foo'' ''@(foo|bar)'' (JRef 0) =
     Inr [''-O'', ''extglob'', ''-c'', script ''foo'' ''@(foo|bar)'']"
    by code_simp
  from cmd_script [of "[[(''extglob'', JBool True), (''normalized'', JBool True)]]" "JRef 0"
      "''foo''" "''@(foo|bar)''" "[''-O'', ''extglob'', ''-c'', script ''foo'' ''@(foo|bar)'']",
      THEN conjunct2] a
  have "\<exists>toggles. [''-O'', ''extglob'', ''-c'', script ''foo'' ''@(foo|bar)''] = toggles @ [''-c'',
           ''IFS=$'' @ [CHR 0x22, CHR 0x0A, CHR 0x22] @ ''; if [[ '' @ [CHR 0x22] @ ''foo''
             @ [CHR 0x22] @ '' = '' @ ''@(foo|bar)'' @ '' ]]; then echo true; fi''] \<and>
         ''-c'' \<notin> set toggles"
    by (rule mp)
  with a show ?thesis by (rule conjI)
qed

section \<open>What bash returns\<close>

lemma probeBashPath_nonempty: "probeBashPath e \<noteq> []"
  by (simp add: probeBashPath_def)

lemma getBashPath_eq:
  "getBashPath e w = (fst (getBashPath e w), w\<lparr>bashPath := Some (fst (getBashPath e w))\<rparr>)"
  by (simp add: getBashPath_def split: option.splits)

lemma getBashPath_nonempty: "fst (getBashPath e w) \<noteq> []"
  by (simp add: getBashPath_def probeBashPath_nonempty split: option.splits)

lemma getBashPath_heap: "fst (getBashPath e (w\<lparr>heap := h\<rparr>)) = fst (getBashPath e w)"
  by (simp add: getBashPath_def split: option.splits)

lemma getBashPath_cached:
  "bashPath w' = Some (fst (getBashPath e w)) \<Longrightarrow> fst (getBashPath e w') = fst (getBashPath e w)"
  using getBashPath_nonempty [of e w] by (simp add: getBashPath_def [of e w'])

lemma handleError_strict:
  "truthy opts \<Longrightarrow> handleError h err opts = strict (ownProps h opts) err"
  by (simp add: handleError_def strict_def getProp_JBool)

lemma createOptions_Inr_truthy:
  "createOptions e h pattern options = (Inr opts, h1) \<Longrightarrow> truthy opts"
  using createOptions_Inr_normalized getProp_truthy by blast

lemma bash_try_Inl:
  assumes "createOptions e (heap w) pattern options = (Inl err, h1)"
  shows "bash_try e w str pattern options = ((Inl err, JUndefined), w\<lparr>heap := h1\<rparr>)"
  using assms by (simp add: bash_try_def)

lemma bash_Inl:
  assumes "\<not> isWindows e" and "createOptions e (heap w) pattern options = (Inl err, h1)"
  shows "bash e w (JStr str) (JStr pattern) options = (Inr False, w\<lparr>heap := h1\<rparr>)"
  using assms by (simp add: bash_def bash_try_Inl handleError_def)

lemma bash_Inr:
  assumes nw: "\<not> isWindows e"
    and co: "createOptions e (heap w) pattern options = (Inr opts, h1)"
  shows "fst (bash e w (JStr str) (JStr pattern) options) =
           outcome e (fst (getBashPath e w)) str pattern (ownProps h1 opts) \<and>
         heap (snd (bash e w (JStr str) (JStr pattern) options)) = h1 \<and>
         bashPath (snd (bash e w (JStr str) (JStr pattern) options)) = Some (fst (getBashPath e w))"
proof -
  let ?P = "fst (getBashPath e w)"
  let ?ob = "ownProps h1 opts"
  have t: "truthy opts" using co by (rule createOptions_Inr_truthy)
  have g: "getBashPath e (w\<lparr>heap := h1\<rparr>) = (?P, w\<lparr>heap := h1, bashPath := Some ?P\<rparr>)"
    using getBashPath_eq [of e "w\<lparr>heap := h1\<rparr>"] by (simp add: getBashPath_heap)
  show ?thesis
  proof cases
    assume so: "hasOwn ?ob ''hasOwnProperty''"
    then have c: "cmd h1 str pattern opts = Inl (TypeError ''options.hasOwnProperty is not a function'')"
      by (simp add: cmd_def)
    have "bash_try e w str pattern options =
        ((Inl (TypeError ''options.hasOwnProperty is not a function''), opts),
         w\<lparr>heap := h1, bashPath := Some ?P\<rparr>)"
      by (simp add: bash_try_def co g c)
    with nw so t show ?thesis
      by (simp add: bash_def outcome_def handleError_strict)
  next
    assume so: "\<not> hasOwn ?ob ''hasOwnProperty''"
    let ?args = "cmd_loop (map fst ?ob) [] @ [''-c'', script str pattern]"
    from so have c: "cmd h1 str pattern opts = Inr ?args"
      by (simp add: cmd_def)
    have "(\<exists>err. spawn_sync e ?P ?args ?ob = Inl err) \<or>
          (\<exists>res. spawn_sync e ?P ?args ?ob = Inr res)"
      by (rule sum.exhaust [of "spawn_sync e ?P ?args ?ob"]) simp_all
    then show ?thesis
    proof (elim disjE exE)
      fix err assume Inl: "spawn_sync e ?P ?args ?ob = Inl err"
      then have "bash_try e w str pattern options =
        ((Inl err, opts), w\<lparr>heap := h1, bashPath := Some ?P, spawned := spawned w @ [(?P, ?args, ?ob)]\<rparr>)"
        by (simp add: bash_try_def co g c)
      with nw so t Inl show ?thesis
        by (simp add: bash_def outcome_def handleError_strict)
    next
      fix res assume Inr: "spawn_sync e ?P ?args ?ob = Inr res"
      then have "bash_try e w str pattern options =
        ((if toString (stderr res) \<noteq> []
          then handleError h1 (ThrownString (toString (stderr res))) opts
          else Inr (toString (stdout res) \<noteq> []), opts),
         w\<lparr>heap := h1, bashPath := Some ?P, spawned := spawned w @ [(?P, ?args, ?ob)]\<rparr>)"
        by (simp add: bash_try_def co g c Let_def)
      with nw so t Inr show ?thesis
        by (simp add: bash_def outcome_def handleError_strict strict_def)
    qed
  qed
qed

text \<open>What \<^verbatim>\<open>trim\<close> and \<^verbatim>\<open>toString\<close> compute.\<close>

lemma toString_trim: "toString buf = trim (case buf of None \<Rightarrow> [] | Some s \<Rightarrow> s)"
  by (cases buf) (simp_all add: toString_def)

lemma rev_dropWhile_split:
  "xs = rev (dropWhile P (rev xs)) @ rev (takeWhile P (rev xs))"
proof -
  have "rev xs = takeWhile P (rev xs) @ dropWhile P (rev xs)"
    by (rule takeWhile_dropWhile_id [symmetric])
  then have "rev (rev xs) = rev (takeWhile P (rev xs) @ dropWhile P (rev xs))"
    by (rule arg_cong)
  then show ?thesis by (simp only: rev_rev_ident rev_append)
qed

lemma trim_split:
  "\<exists>pre post. s = pre @ trim s @ post \<and>
     (\<forall>c \<in> set pre. isWhiteSpace c) \<and> (\<forall>c \<in> set post. isWhiteSpace c)"
proof -
  let ?d = "dropWhile isWhiteSpace s"
  have "s = takeWhile isWhiteSpace s @ ?d"
    by (rule takeWhile_dropWhile_id [symmetric])
  also have "?d = trim s @ rev (takeWhile isWhiteSpace (rev ?d))"
    unfolding trim_def by (rule rev_dropWhile_split)
  finally have "s = takeWhile isWhiteSpace s @ trim s @ rev (takeWhile isWhiteSpace (rev ?d))" .
  moreover have "\<forall>c \<in> set (takeWhile isWhiteSpace s). isWhiteSpace c"
    by (auto dest: set_takeWhileD)
  moreover have "\<forall>c \<in> set (rev (takeWhile isWhiteSpace (rev ?d))). isWhiteSpace c"
    by (auto dest: set_takeWhileD)
  ultimately show ?thesis by blast
qed

lemma trim_ends:
  assumes "trim s \<noteq> []"
  shows "\<not> isWhiteSpace (hd (trim s)) \<and> \<not> isWhiteSpace (last (trim s))"
proof -
  let ?d = "dropWhile isWhiteSpace s"
  let ?r = "dropWhile isWhiteSpace (rev ?d)"
  from assms have r: "?r \<noteq> []" by (simp add: trim_def)
  have d: "?d \<noteq> []"
  proof
    assume "?d = []"
    then have "?r = []" by (simp only: rev.simps dropWhile.simps)
    with r show False by (rule notE)
  qed
  from r have "\<not> isWhiteSpace (hd ?r)" by (rule hd_dropWhile)
  with r have l: "\<not> isWhiteSpace (last (trim s))" by (simp add: trim_def last_rev)
  have "?d = trim s @ rev (takeWhile isWhiteSpace (rev ?d))"
    unfolding trim_def by (rule rev_dropWhile_split)
  then have "hd ?d = hd (trim s @ rev (takeWhile isWhiteSpace (rev ?d)))"
    by (rule arg_cong)
  also from assms have "\<dots> = hd (trim s)" by (rule hd_append2)
  finally have "hd (trim s) = hd ?d" by (rule sym)
  moreover from d have "\<not> isWhiteSpace (hd ?d)" by (rule hd_dropWhile)
  ultimately show ?thesis using l by simp
qed

lemma toString_split:
  "\<exists>pre post. (case buf of None \<Rightarrow> [] | Some s \<Rightarrow> s) = pre @ toString buf @ post \<and>
     (\<forall>c \<in> set (pre @ post). of_char c \<in> {9, 10, 11, 12, 13, 32, 160 :: nat})"
  using trim_split [of "case buf of None \<Rightarrow> [] | Some s \<Rightarrow> s"]
  unfolding toString_trim isWhiteSpace_def by auto

lemma toString_ends:
  "toString buf \<noteq> [] \<longrightarrow>
     of_char (hd (toString buf)) \<notin> {9, 10, 11, 12, 13, 32, 160 :: nat} \<and>
     of_char (last (toString buf)) \<notin> {9, 10, 11, 12, 13, 32, 160 :: nat}"
  using trim_ends [of "case buf of None \<Rightarrow> [] | Some s \<Rightarrow> s"]
  unfolding toString_trim isWhiteSpace_def by blast

text \<open>
  C1: on a platform that is not Windows, when normalisation returned the record \<open>opts\<close>,
  \<^verbatim>\<open>cmd\<close> the list \<open>args\<close> and the shell the result \<open>res\<close>. The text that
  \<^verbatim>\<open>toString\<close> makes of a stream is the stream's decoded text without its leading and
  trailing white space: the text is that result between two runs of white space, and the
  result, when not empty, neither starts nor ends with white space. If that text of the
  error stream is not empty, \<^verbatim>\<open>bash\<close> raises it when \<open>opts.strictErrors\<close> is
  \<open>true\<close> and returns \<open>false\<close> otherwise; if it is empty, \<^verbatim>\<open>bash\<close> returns
  whether that text of the output stream is not empty.
\<close>

theorem bash_interprets:
  assumes "\<not> isWindows e"
    and "createOptions e (heap w) pattern options = (Inr opts, h1)"
    and "cmd h1 str pattern opts = Inr args"
    and "spawn_sync e (fst (getBashPath e w)) args (ownProps h1 opts) = Inr res"
  shows "(\<exists>pre post. (case stderr res of None \<Rightarrow> [] | Some s \<Rightarrow> s) = pre @ toString (stderr res) @ post \<and>
            (\<forall>c \<in> set (pre @ post). of_char c \<in> {9, 10, 11, 12, 13, 32, 160 :: nat})) \<and>
         (toString (stderr res) \<noteq> [] \<longrightarrow>
            of_char (hd (toString (stderr res))) \<notin> {9, 10, 11, 12, 13, 32, 160 :: nat} \<and>
            of_char (last (toString (stderr res))) \<notin> {9, 10, 11, 12, 13, 32, 160 :: nat}) \<and>
         (\<exists>pre post. (case stdout res of None \<Rightarrow> [] | Some s \<Rightarrow> s) = pre @ toString (stdout res) @ post \<and>
            (\<forall>c \<in> set (pre @ post). of_char c \<in> {9, 10, 11, 12, 13, 32, 160 :: nat})) \<and>
         (toString (stdout res) \<noteq> [] \<longrightarrow>
            of_char (hd (toString (stdout res))) \<notin> {9, 10, 11, 12, 13, 32, 160 :: nat} \<and>
            of_char (last (toString (stdout res))) \<notin> {9, 10, 11, 12, 13, 32, 160 :: nat}) \<and>
         fst (bash e w (JStr str) (JStr pattern) options) =
           (if toString (stderr res) \<noteq> []
            then (if getProp h1 opts ''strictErrors'' = JBool True
                  then Inl (ThrownString (toString (stderr res))) else Inr False)
            else Inr (toString (stdout res) \<noteq> []))"
proof (intro conjI)
  show "\<exists>pre post. (case stderr res of None \<Rightarrow> [] | Some s \<Rightarrow> s) = pre @ toString (stderr res) @ post \<and>
            (\<forall>c \<in> set (pre @ post). of_char c \<in> {9, 10, 11, 12, 13, 32, 160 :: nat})"
    by (rule toString_split)
  show "\<exists>pre post. (case stdout res of None \<Rightarrow> [] | Some s \<Rightarrow> s) = pre @ toString (stdout res) @ post \<and>
            (\<forall>c \<in> set (pre @ post). of_char c \<in> {9, 10, 11, 12, 13, 32, 160 :: nat})"
    by (rule toString_split)
  show "toString (stderr res) \<noteq> [] \<longrightarrow>
            of_char (hd (toString (stderr res))) \<notin> {9, 10, 11, 12, 13, 32, 160 :: nat} \<and>
            of_char (last (toString (stderr res))) \<notin> {9, 10, 11, 12, 13, 32, 160 :: nat}"
    by (rule toString_ends)
  show "toString (stdout res) \<noteq> [] \<longrightarrow>
            of_char (hd (toString (stdout res))) \<notin> {9, 10, 11, 12, 13, 32, 160 :: nat} \<and>
            of_char (last (toString (stdout res))) \<notin> {9, 10, 11, 12, 13, 32, 160 :: nat}"
    by (rule toString_ends)
  from assms(3) have so: "\<not> hasOwn (ownProps h1 opts) ''hasOwnProperty''"
    and args: "args = cmd_loop (map fst (ownProps h1 opts)) [] @ [''-c'', script str pattern]"
    by (auto simp: cmd_def split: if_splits)
  from bash_Inr [OF assms(1,2)]
  have "fst (bash e w (JStr str) (JStr pattern) options) =
          outcome e (fst (getBashPath e w)) str pattern (ownProps h1 opts)"
    by (rule conjunct1)
  also have "\<dots> = (if toString (stderr res) \<noteq> []
      then (if getProp h1 opts ''strictErrors'' = JBool True
            then Inl (ThrownString (toString (stderr res))) else Inr False)
      else Inr (toString (stdout res) \<noteq> []))"
    using so assms(4) by (simp add: outcome_def args [symmetric] strict_def getProp_JBool)
  finally show "fst (bash e w (JStr str) (JStr pattern) options) =
           (if toString (stderr res) \<noteq> []
            then (if getProp h1 opts ''strictErrors'' = JBool True
                  then Inl (ThrownString (toString (stderr res))) else Inr False)
            else Inr (toString (stdout res) \<noteq> []))" .
qed

theorem bash_interprets_witness:
  "\<not> isWindows posix \<and>
   createOptions posix [[(''strictErrors'', JBool True)]] ''(('' (JRef 0) =
     (Inr (JRef 1),
      [[(''strictErrors'', JBool True)],
       [(''cwd'', JStr ''/home/u''), (''strictErrors'', JBool True),
        (''normalized'', JBool True)]]) \<and>
   cmd [[(''strictErrors'', JBool True)],
        [(''cwd'', JStr ''/home/u''), (''strictErrors'', JBool True),
         (''normalized'', JBool True)]] ''foo'' ''(('' (JRef 1) =
     Inr [''-c'', script ''foo'' ''((''] \<and>
   toString (Some (''syntax error'' @ [CHR 0x0A])) = ''syntax error'' \<and>
   fst (bash posix \<lparr>heap = [[(''strictErrors'', JBool True)]], bashPath = None, spawned = []\<rparr>
          (JStr ''foo'') (JStr ''(('') (JRef 0)) = Inl (ThrownString ''syntax error'')"
proof -
  let ?w = "\<lparr>heap = [[(''strictErrors'', JBool True)]], bashPath = None, spawned = []\<rparr>"
  let ?h1 = "[[(''strictErrors'', JBool True)],
       [(''cwd'', JStr ''/home/u''), (''strictErrors'', JBool True),
        (''normalized'', JBool True)]]"
  let ?res = "\<lparr>stdout = Some [], stderr = Some (''syntax error'' @ [CHR 0x0A])\<rparr>"
  have a: "\<not> isWindows posix" by code_simp
  have b: "createOptions posix (heap ?w) ''(('' (JRef 0) = (Inr (JRef 1), ?h1)" by code_simp
  have c: "cmd ?h1 ''foo'' ''(('' (JRef 1) = Inr [''-c'', script ''foo'' ''(('']" by code_simp
  have d: "spawn_sync posix (fst (getBashPath posix ?w)) [''-c'', script ''foo'' ''((''] (ownProps ?h1 (JRef 1))
            = Inr ?res"
    by code_simp
  have t: "toString (Some (''syntax error'' @ [CHR 0x0A])) = ''syntax error''" by code_simp
  have e: "(if toString (stderr ?res) \<noteq> []
      then (if getProp ?h1 (JRef 1) ''strictErrors'' = JBool True
            then Inl (ThrownString (toString (stderr ?res))) else Inr False)
      else Inr (toString (stdout ?res) \<noteq> [])) = Inl (ThrownString ''syntax error'')"
    by code_simp
  from bash_interprets [OF a b c d]
  have "fst (bash posix ?w (JStr ''foo'') (JStr ''(('') (JRef 0)) =
     (if toString (stderr ?res) \<noteq> []
      then (if getProp ?h1 (JRef 1) ''strictErrors'' = JBool True
            then Inl (ThrownString (toString (stderr ?res))) else Inr False)
      else Inr (toString (stdout ?res) \<noteq> []))"
    by (rule conjunct2 [THEN conjunct2, THEN conjunct2, THEN conjunct2])
  from this e
  have "fst (bash posix ?w (JStr ''foo'') (JStr ''(('') (JRef 0)) = Inl (ThrownString ''syntax error'')"
    by (rule trans)
  with a b c t show ?thesis by simp
qed

text \<open>
  C6: when the subject or the pattern is not a string, or the platform is Windows,
  \<^verbatim>\<open>bash\<close> raises, whatever the options are, and leaves the world as it was: no
  object allocated, no shell path probed, no shell invocation made.
\<close>

theorem bash_rejects:
  assumes "\<not> isString str \<or> \<not> isString pattern \<or> isWindows e"
  shows "bash e w str pattern options =
           (Inl (if \<not> isString str \<or> \<not> isString pattern then TypeError ''expected a string''
                 else Error ''bash-match does not work on windows''), w)"
  using assms by (auto simp: bash_def isString_def split: jsval.splits)

theorem bash_rejects_witness:
  "\<not> isString (JNum 123) \<and>
   bash posix \<lparr>heap = [[(''strictErrors'', JBool True)]], bashPath = None, spawned = []\<rparr>
     (JNum 123) (JStr ''f*'') (JRef 0) =
   (Inl (TypeError ''expected a string''),
    \<lparr>heap = [[(''strictErrors'', JBool True)]], bashPath = None, spawned = []\<rparr>)"
proof -
  have a: "\<not> isString (JNum 123) \<or> \<not> isString (JStr ''f*'') \<or> isWindows posix"
    by (simp add: isString_def)
  have n: "\<not> isString (JNum 123)" by (simp add: isString_def)
  from bash_rejects [OF a, of "\<lparr>heap = [[(''strictErrors'', JBool True)]], bashPath = None, spawned = []\<rparr>" "JRef 0"]
  show ?thesis using n by simp
qed

section \<open>Matching a list\<close>

lemma ownProps_wf: "wf_val h v \<Longrightarrow> ownProps (h @ ext) v = ownProps h v"
  by (cases v) (simp_all add: wf_val_def)

lemma getProp_wf: "wf_val h v \<Longrightarrow> getProp (h @ ext) v key = getProp h v key"
  by (simp add: getProp_def ownProps_wf)

lemma normalized_props_eq:
  "normalized_props e h pattern options =
     (if getProp h options ''normalized'' = JBool True then Some (ownProps h options)
      else
        let ob = aliased e (ownProps (h @ [[(''cwd'', JStr (process_cwd e))]]) options)
        in if hasOwn ob ''hasOwnProperty'' then None else Some (implied pattern ob))"
proof cases
  assume c: "getProp h options ''normalized'' = JBool True"
  then show ?thesis
    by (simp add: normalized_props_def createOptions_canonical)
next
  assume nc: "getProp h options ''normalized'' \<noteq> JBool True"
  then show ?thesis
    by (simp add: normalized_props_def createOptions_fresh [OF nc] Let_def)
qed

lemma normalized_props_stable:
  assumes "wf_val h options"
  shows "normalized_props e (h @ ext) pattern options = normalized_props e h pattern options"
proof -
  have "ownProps ((h @ ext) @ [[(''cwd'', JStr (process_cwd e))]]) options = ownProps h options"
    using assms by (simp only: append_assoc ownProps_wf)
  moreover have "ownProps (h @ [[(''cwd'', JStr (process_cwd e))]]) options = ownProps h options"
    using assms by (rule ownProps_wf)
  ultimately show ?thesis
    using assms by (simp only: normalized_props_eq getProp_wf ownProps_wf)
qed

lemma bash_fst_eq:
  assumes "\<not> isWindows e"
  shows "fst (bash e w (JStr str) (JStr pattern) options) =
     (case normalized_props e (heap w) pattern options of
        None \<Rightarrow> Inr False
      | Some ob \<Rightarrow> outcome e (fst (getBashPath e w)) str pattern ob)"
proof -
  obtain r h1 where co: "createOptions e (heap w) pattern options = (r, h1)"
    by (rule prod.exhaust)
  show ?thesis
  proof (cases r)
    case (Inl err)
    with co bash_Inl [OF assms, of w pattern options err h1] show ?thesis
      by (simp add: normalized_props_def)
  next
    case (Inr opts)
    with co bash_Inr [OF assms, of w pattern options opts h1] show ?thesis
      by (simp add: normalized_props_def)
  qed
qed

lemma createOptions_heap_ext: "\<exists>ext. snd (createOptions e h pattern options) = h @ ext"
proof cases
  assume "getProp h options ''normalized'' = JBool True"
  then show ?thesis by (simp add: createOptions_canonical)
next
  assume nc: "getProp h options ''normalized'' \<noteq> JBool True"
  show ?thesis by (simp add: createOptions_fresh [OF nc] Let_def)
qed

lemma bash_extends: "extends e w (snd (bash e w x pattern options))"
proof -
  have refl: "extends e w w" by (simp add: extends_def)
  show ?thesis
  proof cases
    assume run: "isString x \<and> isString pattern \<and> \<not> isWindows e"
    then obtain s p where x: "x = JStr s" and p: "pattern = JStr p"
      by (auto simp: isString_def split: jsval.splits)
    from run have nw: "\<not> isWindows e" by simp
    obtain r h1 where co: "createOptions e (heap w) p options = (r, h1)"
      by (rule prod.exhaust)
    from createOptions_heap_ext [of e "heap w" p options] co
    obtain ext where h1: "h1 = heap w @ ext" by auto
    show ?thesis
    proof (cases r)
      case (Inl err)
      with co bash_Inl [OF nw, of w p options err h1] h1 show ?thesis
        by (simp add: x p extends_def getBashPath_heap prefix_def)
    next
      case (Inr opts)
      with co bash_Inr [OF nw, of w p options opts h1 s] h1 show ?thesis
        by (simp add: x p extends_def getBashPath_cached prefix_def)
    qed
  next
    assume "\<not> (isString x \<and> isString pattern \<and> \<not> isWindows e)"
    then have "snd (bash e w x pattern options) = w"
      by (auto simp: bash_def isString_def split: jsval.splits)
    with refl show ?thesis by simp
  qed
qed

lemma extends_trans: "extends e w w' \<Longrightarrow> extends e w' w'' \<Longrightarrow> extends e w w''"
  by (auto simp: extends_def prefix_def)

lemma bash_stable:
  assumes wf: "wf_val (heap w) options" and ex: "extends e w w'"
  shows "fst (bash e w' x pattern options) = fst (bash e w x pattern options)"
proof cases
  assume run: "isString x \<and> isString pattern \<and> \<not> isWindows e"
  then obtain s p where x: "x = JStr s" and p: "pattern = JStr p"
    by (auto simp: isString_def split: jsval.splits)
  from run have nw: "\<not> isWindows e" by simp
  from ex obtain ext where h: "heap w' = heap w @ ext"
    and g: "fst (getBashPath e w') = fst (getBashPath e w)"
    by (auto simp: extends_def prefix_def)
  show ?thesis
    by (simp add: x p bash_fst_eq [OF nw] h g normalized_props_stable [OF wf]
        cong: option.case_cong)
next
  assume "\<not> (isString x \<and> isString pattern \<and> \<not> isWindows e)"
  then show ?thesis
    by (auto simp: bash_def isString_def split: jsval.splits)
qed

lemma match_loop_filter:
  assumes wf: "wf_val (heap w) options"
    and ex: "extends e w w'"
    and ret: "\<forall>x \<in> set xs. \<exists>b. fst (bash e w x pattern options) = Inr b"
  shows "fst (match_loop e w' xs pattern options acc) =
           Inr (acc @ filter (\<lambda>x. fst (bash e w x pattern options) = Inr True) xs)"
  using ex ret
proof (induction xs arbitrary: w' acc)
  case Nil
  then show ?case by simp
next
  case (Cons x xs)
  from Cons.prems(2) obtain b where b: "fst (bash e w x pattern options) = Inr b" by auto
  with bash_stable [OF wf Cons.prems(1)] have b': "fst (bash e w' x pattern options) = Inr b"
    by simp
  define w'' where "w'' = snd (bash e w' x pattern options)"
  from b' have run: "bash e w' x pattern options = (Inr b, w'')"
    by (simp add: w''_def prod_eq_iff)
  have "extends e w' w''" unfolding w''_def by (rule bash_extends)
  with Cons.prems(1) have ex'': "extends e w w''" by (rule extends_trans)
  from Cons.prems(2) have ret': "\<forall>x \<in> set xs. \<exists>b. fst (bash e w x pattern options) = Inr b"
    by simp
  show ?case
    by (simp add: isMatch_def run Cons.IH [OF ex'' ret'] b)
qed

lemma match_loop_returns:
  assumes wf: "wf_val (heap w) options"
    and ex: "extends e w w'"
    and ret: "fst (match_loop e w' xs pattern options acc) = Inr ys"
  shows "\<forall>x \<in> set xs. \<exists>b. fst (bash e w x pattern options) = Inr b"
  using ex ret
proof (induction xs arbitrary: w' acc)
  case Nil
  then show ?case by simp
next
  case (Cons x xs)
  define w'' where "w'' = snd (bash e w' x pattern options)"
  have "extends e w' w''" unfolding w''_def by (rule bash_extends)
  with Cons.prems(1) have ex'': "extends e w w''" by (rule extends_trans)
  have st: "fst (bash e w' x pattern options) = fst (bash e w x pattern options)"
    using wf Cons.prems(1) by (rule bash_stable)
  obtain r where r: "fst (bash e w x pattern options) = r" by simp
  show ?case
  proof (cases r)
    case (Inl err)
    with st r have "bash e w' x pattern options = (Inl err, w'')"
      by (simp add: w''_def prod_eq_iff)
    with Cons.prems(2) show ?thesis by (simp add: isMatch_def)
  next
    case (Inr b)
    with st r have run: "bash e w' x pattern options = (Inr b, w'')"
      by (simp add: w''_def prod_eq_iff)
    with Cons.prems(2) have
      "fst (match_loop e w'' xs pattern options (if b then acc @ [x] else acc)) = Inr ys"
      by (simp add: isMatch_def)
    from Cons.IH [OF ex'' this] Inr r show ?thesis by simp
  qed
qed

text \<open>
  C8: for options that are a value of the store, \<^verbatim>\<open>bash.match\<close> on an array returns
  the elements for which \<^verbatim>\<open>bash\<close> returns \<open>true\<close>, in their order and as often as
  they occur, when \<^verbatim>\<open>bash\<close> returns on every element; whenever \<^verbatim>\<open>bash.match\<close>
  returns, that is what it returns; and a subject that is not an array is matched as the
  array of that one element.
\<close>

theorem bash_match_filter:
  assumes "wf_val (heap w) options"
  shows "((\<forall>x \<in> set xs. \<exists>b. fst (bash e w x pattern options) = Inr b) \<longrightarrow>
            fst (bash_match e w (JArray xs) pattern options) =
              Inr (filter (\<lambda>x. fst (bash e w x pattern options) = Inr True) xs)) \<and>
         (fst (bash_match e w (JArray xs) pattern options) = Inr ys \<longrightarrow>
            ys = filter (\<lambda>x. fst (bash e w x pattern options) = Inr True) xs) \<and>
         bash_match e w (JValue v) pattern options = bash_match e w (JArray [v]) pattern options"
proof (intro conjI impI)
  have ex: "extends e w w" by (simp add: extends_def)
  assume ret: "\<forall>x \<in> set xs. \<exists>b. fst (bash e w x pattern options) = Inr b"
  from match_loop_filter [OF assms ex ret, of "[]"]
  show "fst (bash_match e w (JArray xs) pattern options) =
            Inr (filter (\<lambda>x. fst (bash e w x pattern options) = Inr True) xs)"
    by (simp add: bash_match_def)
next
  have ex: "extends e w w" by (simp add: extends_def)
  assume "fst (bash_match e w (JArray xs) pattern options) = Inr ys"
  then have r: "fst (match_loop e w xs pattern options []) = Inr ys"
    by (simp add: bash_match_def)
  from match_loop_returns [OF assms ex r]
  have "\<forall>x \<in> set xs. \<exists>b. fst (bash e w x pattern options) = Inr b" .
  from match_loop_filter [OF assms ex this, of "[]"] r
  show "ys = filter (\<lambda>x. fst (bash e w x pattern options) = Inr True) xs"
    by simp
next
  show "bash_match e w (JValue v) pattern options = bash_match e w (JArray [v]) pattern options"
    by (simp add: bash_match_def)
qed

theorem bash_match_filter_witness:
  "wf_val (heap \<lparr>heap = [], bashPath = None, spawned = []\<rparr>) JUndefined \<and>
   fst (bash posix \<lparr>heap = [], bashPath = None, spawned = []\<rparr> (JStr ''foo'') (JStr ''f*'') JUndefined) = Inr True \<and>
   fst (bash posix \<lparr>heap = [], bashPath = None, spawned = []\<rparr> (JStr ''bar'') (JStr ''f*'') JUndefined) = Inr False \<and>
   fst (bash_match posix \<lparr>heap = [], bashPath = None, spawned = []\<rparr>
          (JArray [JStr ''foo'', JStr ''bar'', JStr ''foo'']) (JStr ''f*'') JUndefined) = Inr [JStr ''foo'', JStr ''foo'']"
proof -
  let ?w = "\<lparr>heap = [], bashPath = None, spawned = []\<rparr>"
  have a: "wf_val (heap ?w) JUndefined" by (simp add: wf_val_def)
  have f: "fst (bash posix ?w (JStr ''foo'') (JStr ''f*'') JUndefined) = Inr True" by code_simp
  have g: "fst (bash posix ?w (JStr ''bar'') (JStr ''f*'') JUndefined) = Inr False" by code_simp
  have r: "\<forall>x \<in> set [JStr ''foo'', JStr ''bar'', JStr ''foo''].
             \<exists>b. fst (bash posix ?w x (JStr ''f*'') JUndefined) = Inr b"
    by (auto simp: f g)
  from bash_match_filter [OF a, of "[JStr ''foo'', JStr ''bar'', JStr ''foo'']" posix "JStr ''f*''", THEN conjunct1] r
  have "fst (bash_match posix ?w (JArray [JStr ''foo'', JStr ''bar'', JStr ''foo'']) (JStr ''f*'') JUndefined) =
          Inr (filter (\<lambda>x. fst (bash posix ?w x (JStr ''f*'') JUndefined) = Inr True)
                 [JStr ''foo'', JStr ''bar'', JStr ''foo''])"
    by (rule mp)
  then have "fst (bash_match posix ?w (JArray [JStr ''foo'', JStr ''bar'', JStr ''foo'']) (JStr ''f*'') JUndefined) =
          Inr [JStr ''foo'', JStr ''foo'']"
    by (simp add: f g)
  with a f g show ?thesis by (intro conjI)
qed

section \<open>The two public entry points agree\<close>

text \<open>
  C10: \<^verbatim>\<open>bash.isMatch\<close> returns or raises exactly what \<^verbatim>\<open>bash\<close> does on the same
  arguments, and leaves the world in the same state.
\<close>

theorem isMatch_eq_bash: "isMatch e w fixture pattern options = bash e w fixture pattern options"
  by (simp add: isMatch_def)

end
